theory Spec2Isabelle
  imports Main
begin

unbundle bit_operations_syntax

section \<open>Python string operations used by knx\_log\_splitter.py\<close>

text \<open>
  A Python \<open>str\<close> is modelled as a \<open>string\<close>, one \<open>char\<close> per code point, which covers
  the code points 0 to 255. Within that range the only decimal digits are the ASCII ones.
\<close>

definition startswith :: "string \<Rightarrow> string \<Rightarrow> bool" where
  \<comment> \<open>\<open>s.startswith(p)\<close>\<close>
  "startswith s p = (take (length p) s = p)"

definition endswith :: "string \<Rightarrow> string \<Rightarrow> bool" where
  \<comment> \<open>\<open>s.endswith(p)\<close>\<close>
  "endswith s p = (length p \<le> length s \<and> drop (length s - length p) s = p)"

definition slice :: "string \<Rightarrow> nat \<Rightarrow> nat \<Rightarrow> string" where
  \<comment> \<open>\<open>s[i:j]\<close> for \<open>0 \<le> i \<le> j\<close>; a slice never raises, it is cut at the end of \<open>s\<close>\<close>
  "slice s i j = take (j - i) (drop i s)"

definition py_isspace :: "char \<Rightarrow> bool" where
  \<comment> \<open>the code points below 256 that \<open>str.strip\<close> removes\<close>
  "py_isspace c = (let n = of_char c :: nat in
     (9 \<le> n \<and> n \<le> 13) \<or> (28 \<le> n \<and> n \<le> 32) \<or> n = 133 \<or> n = 160)"

definition lstrip :: "string \<Rightarrow> string" where
  "lstrip s = dropWhile py_isspace s"

definition rstrip :: "string \<Rightarrow> string" where
  "rstrip s = rev (dropWhile py_isspace (rev s))"

definition strip :: "string \<Rightarrow> string" where
  "strip s = lstrip (rstrip s)"

definition strip_char :: "char \<Rightarrow> string \<Rightarrow> string" where
  \<comment> \<open>\<open>s.strip(c)\<close> for a one-character argument\<close>
  "strip_char c s = dropWhile (\<lambda>x. x = c) (rev (dropWhile (\<lambda>x. x = c) (rev s)))"

fun contains :: "string \<Rightarrow> string \<Rightarrow> bool" where
  \<comment> \<open>\<open>sub in s\<close>\<close>
  "contains sub [] = (sub = [])"
| "contains sub (c # cs) = (startswith (c # cs) sub \<or> contains sub cs)"

text \<open>
  \<open>s.replace(old, new)\<close> and \<open>s.split(sep)\<close> for a non-empty \<open>old\<close> and \<open>sep\<close> (every
  call of the source passes a non-empty literal): occurrences are found from the left and
  do not overlap. The counter \<open>k\<close> is the number of characters of a match still to be skipped.
\<close>

fun replace_aux :: "string \<Rightarrow> string \<Rightarrow> nat \<Rightarrow> string \<Rightarrow> string" where
  "replace_aux old new k [] = []"
| "replace_aux old new (Suc k) (c # cs) = replace_aux old new k cs"
| "replace_aux old new 0 (c # cs) =
     (if startswith (c # cs) old then new @ replace_aux old new (length old - 1) cs
      else c # replace_aux old new 0 cs)"

definition replace :: "string \<Rightarrow> string \<Rightarrow> string \<Rightarrow> string" where
  "replace old new s = replace_aux old new 0 s"

fun split_aux :: "string \<Rightarrow> string \<Rightarrow> nat \<Rightarrow> string \<Rightarrow> string list" where
  "split_aux sep acc k [] = [rev acc]"
| "split_aux sep acc (Suc k) (c # cs) = split_aux sep acc k cs"
| "split_aux sep acc 0 (c # cs) =
     (if startswith (c # cs) sep then rev acc # split_aux sep [] (length sep - 1) cs
      else split_aux sep (c # acc) 0 cs)"

definition split :: "string \<Rightarrow> string \<Rightarrow> string list" where
  "split sep s = split_aux sep [] 0 s"

fun join :: "string \<Rightarrow> string list \<Rightarrow> string" where
  \<comment> \<open>\<open>sep.join(parts)\<close>\<close>
  "join sep [] = []"
| "join sep [p] = p"
| "join sep (p # q # ps) = p @ sep @ join sep (q # ps)"

subsection \<open>Decimal rendering of an integer in an f-string\<close>

definition digit_char :: "nat \<Rightarrow> char" where
  "digit_char d = ''0123456789'' ! d"

fun show_nat :: "nat \<Rightarrow> string" where
  "show_nat n = (if n < 10 then [digit_char n] else show_nat (n div 10) @ [digit_char (n mod 10)])"

declare show_nat.simps [simp del]

definition show_int :: "int \<Rightarrow> string" where
  "show_int i = (if i < 0 then CHR ''-'' # show_nat (nat (- i)) else show_nat (nat i))"

subsection \<open>\<open>int(s, 16)\<close>\<close>

text \<open>
  \<open>int(s, 16)\<close> skips white space at both ends, takes one optional sign, one optional
  prefix \<open>0x\<close> or \<open>0X\<close> (after which one underscore may follow), and then needs at least one
  hexadecimal digit; single underscores may stand between digits. Everything else raises
  \<open>ValueError\<close>, which is \<open>None\<close> here.
\<close>

definition int_isspace :: "char \<Rightarrow> bool" where
  \<comment> \<open>the code points below 256 that \<open>int\<close> skips at the ends of its argument\<close>
  "int_isspace c = (let n = of_char c :: nat in
     (9 \<le> n \<and> n \<le> 13) \<or> n = 32 \<or> n = 133 \<or> n = 160)"

definition hex_val :: "char \<Rightarrow> int option" where
  "hex_val c = (let n = of_char c :: nat in
     if 48 \<le> n \<and> n \<le> 57 then Some (int n - 48)
     else if 97 \<le> n \<and> n \<le> 102 then Some (int n - 87)
     else if 65 \<le> n \<and> n \<le> 70 then Some (int n - 55)
     else None)"

fun scan_digits :: "bool \<Rightarrow> int \<Rightarrow> string \<Rightarrow> (int \<times> string) option" where
  \<comment> \<open>the flag says that the previous character was an underscore\<close>
  "scan_digits us acc [] = (if us then None else Some (acc, []))"
| "scan_digits us acc (c # cs) =
     (if c = CHR ''_'' then (if us then None else scan_digits True acc cs)
      else case hex_val c of
             Some d \<Rightarrow> scan_digits False (16 * acc + d) cs
           | None \<Rightarrow> if us then None else Some (acc, c # cs))"

definition skip_sign :: "string \<Rightarrow> bool \<times> string" where
  "skip_sign s = (case s of
       [] \<Rightarrow> (False, [])
     | c # cs \<Rightarrow> if c = CHR ''+'' then (False, cs)
                else if c = CHR ''-'' then (True, cs) else (False, s))"

definition skip_prefix :: "string \<Rightarrow> string" where
  "skip_prefix s = (case s of
       c # x # r \<Rightarrow>
         if c = CHR ''0'' \<and> (x = CHR ''x'' \<or> x = CHR ''X'')
         then (case r of [] \<Rightarrow> r | u # r' \<Rightarrow> if u = CHR ''_'' then r' else r)
         else s
     | _ \<Rightarrow> s)"

definition py_int16 :: "string \<Rightarrow> int option" where
  "py_int16 s =
     (let (neg, s2) = skip_sign (dropWhile int_isspace s);
          s3 = skip_prefix s2
      in if startswith s3 ''_'' then None
         else case scan_digits False 0 s3 of
                None \<Rightarrow> None
              | Some (v, rest) \<Rightarrow>
                  if rest = s3 then None
                  else if list_all int_isspace rest then Some (if neg then - v else v)
                  else None)"

section \<open>The frame decoders\<close>

text \<open>
  \<open>extract_group_address\<close> and \<open>KNXSplitter.get_physical_address\<close>. The \<open>verbose\<close> flag
  only prints and is left out. Each decoder is the body of its \<open>try\<close> block, where the
  \<open>ValueError\<close> of \<open>int\<close> is \<open>None\<close>, followed by the \<open>except\<close> clause that returns the
  empty string.
\<close>

definition is_ack :: "string \<Rightarrow> bool" where
  \<comment> \<open>\<open>rawdata.endswith("CC") and len(rawdata) <= 24\<close>\<close>
  "is_ack rawdata = (endswith rawdata ''CC'' \<and> length rawdata \<le> 24)"

definition render_ga :: "int \<Rightarrow> int \<Rightarrow> int \<Rightarrow> string" where
  \<comment> \<open>\<open>f"{haupt}/{mittel}/{unter}"\<close>\<close>
  "render_ga haupt mittel unter = show_int haupt @ ''/'' @ show_int mittel @ ''/'' @ show_int unter"

definition render_pa :: "int \<Rightarrow> int \<Rightarrow> int \<Rightarrow> string" where
  \<comment> \<open>\<open>f"{haupt}.{linie}.{teilnehmer}"\<close>\<close>
  "render_pa haupt linie teilnehmer =
     show_int haupt @ ''.'' @ show_int linie @ ''.'' @ show_int teilnehmer"

definition extract_group_address_try :: "string \<Rightarrow> string option" where
  \<comment> \<open>the body of the \<open>try\<close> block; \<open>None\<close> is the exception raised by \<open>int\<close>\<close>
  "extract_group_address_try rawdata =
     (if endswith rawdata ''CC'' \<and> length rawdata \<le> 24 then Some ''IGNORE''
      else if length rawdata < 28 then Some ''IGNORE''
      else let ziel_start = 28 in
        if length rawdata < ziel_start + 4 then Some ''IGNORE''
        else case py_int16 (slice rawdata ziel_start (ziel_start + 2)) of
               None \<Rightarrow> None
             | Some byte1 \<Rightarrow>
                (case py_int16 (slice rawdata (ziel_start + 2) (ziel_start + 4)) of
                   None \<Rightarrow> None
                 | Some byte2 \<Rightarrow>
                    let haupt = drop_bit 4 (byte1 AND 240);
                        mittel = byte1 AND 15;
                        unter = byte2
                    in Some (render_ga haupt mittel unter)))"

definition extract_group_address :: "string \<Rightarrow> string" where
  \<comment> \<open>\<open>except Exception: return ""\<close>\<close>
  "extract_group_address rawdata =
     (case extract_group_address_try rawdata of None \<Rightarrow> [] | Some r \<Rightarrow> r)"

definition get_physical_address_try :: "string \<Rightarrow> string option" where
  "get_physical_address_try rawdata =
     (if endswith rawdata ''CC'' then Some []
      else if length rawdata < 26 then Some []
      else let quell_start = 24 in
        case py_int16 (slice rawdata quell_start (quell_start + 2)) of
          None \<Rightarrow> None
        | Some byte1 \<Rightarrow>
           (case py_int16 (slice rawdata (quell_start + 2) (quell_start + 4)) of
              None \<Rightarrow> None
            | Some byte2 \<Rightarrow>
               let haupt = drop_bit 4 (byte1 AND 240);
                   linie = byte1 AND 15;
                   teilnehmer = byte2
               in Some (render_pa haupt linie teilnehmer)))"

definition get_physical_address :: "string \<Rightarrow> string" where
  "get_physical_address rawdata =
     (case get_physical_address_try rawdata of None \<Rightarrow> [] | Some r \<Rightarrow> r)"

section \<open>KNXSplitter: filters and file name\<close>

fun filter_list :: "string list \<Rightarrow> string list" where
  \<comment> \<open>the loop of \<open>__init__\<close>: empty entries are skipped, the others end with a slash\<close>
  "filter_list [] = []"
| "filter_list (ga # group_addresses) =
     (if ga = [] then filter_list group_addresses
      else (if endswith ga ''/'' then ga else ga @ ''/'') # filter_list group_addresses)"

definition output_filename :: "string list \<Rightarrow> string" where
  "output_filename group_addresses =
     (let parts = map (\<lambda>ga. strip_char (CHR ''_'') (replace ''/'' ''_'' ga)) (filter_list group_addresses);
          joined = (if parts \<noteq> [] then join ''-'' parts else ''all'')
      in ''knx_tel_'' @ joined @ ''.xml'')"

definition other_filename :: string where
  "other_filename = ''knx_tel.xml''"

section \<open>KNXSplitter.split\_and\_save: the partition loop\<close>

text \<open>
  A telegram is the dictionary that the XML parser yields for one \<open>Telegram\<close> element
  (\<open>telegrams: List[dict]\<close>): attribute names, each with its value, in document order.
\<close>

type_synonym telegram = "(string \<times> string) list"

definition get_rawdata :: "telegram \<Rightarrow> string" where
  \<comment> \<open>\<open>telegram.get('@RawData', '')\<close>\<close>
  "get_rawdata telegram = (case map_of telegram ''@RawData'' of None \<Rightarrow> [] | Some v \<Rightarrow> v)"

datatype destination = Filtered | Other

record split_state =
  filtered_telegrams :: "telegram list"
  other_telegrams :: "telegram list"
  filtered_comments :: "string list"
  other_comments :: "string list"
  last_effective_ga :: "string option"
  last_destination :: "destination option"

definition init_state :: split_state where
  "init_state = \<lparr> filtered_telegrams = [], other_telegrams = [], filtered_comments = [],
     other_comments = [], last_effective_ga = None, last_destination = None \<rparr>"

definition ign_comment :: "string \<Rightarrow> string" where
  \<comment> \<open>\<open>f"<!-- GA: IGNORE (unbestimmt) ; QA: {physical_address} -->"\<close>\<close>
  "ign_comment physical_address = ''<!-- GA: IGNORE (unbestimmt) ; QA: '' @ physical_address @ '' -->''"

definition ga_comment :: "string \<Rightarrow> string \<Rightarrow> string" where
  \<comment> \<open>\<open>f"<!-- GA: {group_address} ; QA: {physical_address} -->"\<close>\<close>
  "ga_comment group_address physical_address =
     ''<!-- GA: '' @ group_address @ '' ; QA: '' @ physical_address @ '' -->''"

definition split_step :: "string list \<Rightarrow> split_state \<Rightarrow> telegram \<Rightarrow> split_state" where
  \<comment> \<open>one pass through the body of the \<open>for\<close> loop\<close>
  "split_step flist st telegram =
     (let rawdata = get_rawdata telegram in
      if rawdata = [] then st
      else if is_ack rawdata then
        (if last_destination st = Some Other
         then st\<lparr> other_telegrams := other_telegrams st @ [telegram],
                  other_comments := other_comments st @ [[]] \<rparr>
         else st\<lparr> filtered_telegrams := filtered_telegrams st @ [telegram],
                  filtered_comments := filtered_comments st @ [[]] \<rparr>)
      else
        let group_address = extract_group_address rawdata in
        if group_address = ''IGNORE'' \<or> group_address = [] then
          st\<lparr> filtered_telegrams := filtered_telegrams st @ [telegram],
              filtered_comments := filtered_comments st @ [ign_comment (get_physical_address rawdata)],
              last_destination := Some Filtered \<rparr>
        else
          let comment = ga_comment group_address (get_physical_address rawdata) in
          if list_ex (\<lambda>f. startswith group_address f) flist then
            st\<lparr> filtered_telegrams := filtered_telegrams st @ [telegram],
                filtered_comments := filtered_comments st @ [comment],
                last_effective_ga := Some group_address,
                last_destination := Some Filtered \<rparr>
          else
            st\<lparr> other_telegrams := other_telegrams st @ [telegram],
                other_comments := other_comments st @ [comment],
                last_effective_ga := Some group_address,
                last_destination := Some Other \<rparr>)"

definition split_loop :: "string list \<Rightarrow> telegram list \<Rightarrow> split_state" where
  \<comment> \<open>the \<open>for\<close> loop over the telegrams, from the empty collections\<close>
  "split_loop flist telegrams = foldl (split_step flist) init_state telegrams"

text \<open>The positions of the telegrams that have a non-empty raw frame.\<close>

definition routed :: "telegram list \<Rightarrow> nat set" where
  "routed ts = {i. i < length ts \<and> get_rawdata (ts ! i) \<noteq> []}"

section \<open>insert\_comments: the rendering pass\<close>

datatype py_error = IndexError

definition first_part :: "string list \<Rightarrow> string" where
  \<comment> \<open>\<open>parts[0]\<close> of a \<open>split\<close> result, which is never empty\<close>
  "first_part parts = (case parts of [] \<Rightarrow> [] | p # _ \<Rightarrow> p)"

definition annotate :: "string \<Rightarrow> string \<Rightarrow> py_error + string" where
  \<comment> \<open>the branch for a non-empty comment; \<open>split(';')[1]\<close> raises when there is no semicolon\<close>
  \<open>annotate telegram_part0 c =
     (let spaces_needed = 165 - (int (length telegram_part0) + 4);
          telegram_part = (if spaces_needed > 0
                           then telegram_part0 @ replicate (nat spaces_needed) CHR '' ''
                           else telegram_part0);
          comment = replace ''<!-- '' [] c
      in case split '';'' comment of
           p0 # p1 # _ \<Rightarrow>
             let ga_part = strip p0;
                 qa_part = strip p1;
                 current_pos = int (length telegram_part) + 4;
                 semicolon_pos = current_pos + 5 + int (length ga_part);
                 spaces_before_semicolon = 183 - semicolon_pos;
                 comment2 = (if spaces_before_semicolon > 0
                             then ''<!-- '' @ (ga_part @ replicate (nat spaces_before_semicolon) CHR '' '')
                                  @ ''; '' @ qa_part
                             else comment)
             in Inr (''    '' @ telegram_part @ comment2 @ [CHR 0x0A])
         | _ \<Rightarrow> Inl IndexError)\<close>

definition rewrite_line :: "string list \<Rightarrow> nat \<Rightarrow> string \<Rightarrow> py_error + (string \<times> nat)" where
  \<comment> \<open>the body of the loop over the lines: the new line and the new \<open>comment_idx\<close>\<close>
  \<open>rewrite_line comments comment_idx line0 =
     (if contains ''<Telegram'' line0 \<and> contains ''</Telegram>'' line0 then
        let line = lstrip line0 in
        (case split ''RawData="'' line of
           [p0, p1] \<Rightarrow>
             let rawdata_part = first_part (split ''"'' p1);
                 telegram_part = p0 @ ''RawData="'' @ rawdata_part @ ''" />''
             in if comment_idx < length comments \<and> comments ! comment_idx \<noteq> [] then
                  (case annotate telegram_part (comments ! comment_idx) of
                     Inl e \<Rightarrow> Inl e
                   | Inr l \<Rightarrow> Inr (l, comment_idx + 1))
                else Inr (''    '' @ telegram_part @ [CHR 0x0A], comment_idx + 1)
         | _ \<Rightarrow> Inr (line, comment_idx))
      else Inr (line0, comment_idx))\<close>

fun insert_comments_loop :: "string list \<Rightarrow> nat \<Rightarrow> string list \<Rightarrow> py_error + string list" where
  "insert_comments_loop comments comment_idx [] = Inr []"
| "insert_comments_loop comments comment_idx (line # lines) =
     (case rewrite_line comments comment_idx line of
        Inl e \<Rightarrow> Inl e
      | Inr (l, idx) \<Rightarrow>
          (case insert_comments_loop comments idx lines of
             Inl e \<Rightarrow> Inl e
           | Inr ls \<Rightarrow> Inr (l # ls)))"

definition insert_comments :: "string list \<Rightarrow> string list \<Rightarrow> py_error + string list" where
  "insert_comments comments lines = insert_comments_loop comments 0 lines"

section \<open>The shape of the comments\<close>

text \<open>
  Predicates for stating the rendering properties: a field of a comment holds neither a
  semicolon nor an opening angle bracket; a comment of the partition loop is empty or made
  by \<open>ga_comment\<close> from two such fields, the first of them not empty and not ending in
  white space.
\<close>

definition annotation_field :: "string \<Rightarrow> bool" where
  "annotation_field s = (CHR '';'' \<notin> set s \<and> CHR ''<'' \<notin> set s)"

definition plain_char :: "char \<Rightarrow> bool" where
  "plain_char c \<longleftrightarrow> c \<noteq> CHR '';'' \<and> c \<noteq> CHR ''<'' \<and> \<not> py_isspace c"

definition comment_shape :: "string \<Rightarrow> bool" where
  "comment_shape c \<longleftrightarrow> c = [] \<or>
     (\<exists>g p. c = ga_comment g p \<and> g \<noteq> [] \<and> \<not> py_isspace (last g) \<and>
        annotation_field g \<and> annotation_field p)"

section \<open>Example telegrams\<close>

text \<open>
  Frames for the concrete runs below: a header of 22 characters, the control byte \<open>BC\<close>,
  the source \<open>AABB\<close>, then the destination. \<open>frame_ack\<close> is an acknowledgement of 24
  characters, \<open>frame_short\<close> has 20 characters, \<open>frame_noraw\<close> has no raw frame.
\<close>

definition frame_235 :: telegram where
  "frame_235 = [(''@Timestamp'', ''t1''), (''@RawData'', ''0000000000000000000000BCAABB2305E100'')]"

definition frame_075 :: telegram where
  "frame_075 = [(''@Timestamp'', ''t2''), (''@RawData'', ''0000000000000000000000BCAABB0705E100'')]"

definition frame_ack :: telegram where
  "frame_ack = [(''@Timestamp'', ''t3''), (''@RawData'', ''0000000000000000000000CC'')]"

definition frame_short :: telegram where
  "frame_short = [(''@Timestamp'', ''t4''), (''@RawData'', ''00000000000000000000'')]"

definition frame_noraw :: telegram where
  "frame_noraw = [(''@Timestamp'', ''t5'')]"

definition example_log :: "telegram list" where
  "example_log = [frame_ack, frame_235, frame_noraw, frame_ack, frame_075, frame_short]"

definition frame_115 :: telegram where
  "frame_115 = [(''@RawData'', ''0000000000000000000000BCAABB1105E100'')]"

definition frame_1_10_5 :: telegram where
  "frame_1_10_5 = [(''@RawData'', ''0000000000000000000000BCAABB1A05E100'')]"

text \<open>Lines as the serialiser writes them, and the first of them after the rendering pass.\<close>

definition example_line :: string where
  \<open>example_line = [CHR 0x09] @
     ''<Telegram Timestamp="a" RawData="0000000000000000000000BCAABB2305E100"></Telegram>'' @ [CHR 0x0A]\<close>

definition example_rendered :: string where
  \<open>example_rendered =
     ''    <Telegram Timestamp="a" RawData="0000000000000000000000BCAABB2305E100" />'' @
     replicate 88 CHR '' '' @ ''<!-- GA: 2/3/5'' @ replicate 4 CHR '' '' @ ''; QA: 10.10.187 -->'' @ [CHR 0x0A]\<close>

definition example_short_line :: string where
  \<open>example_short_line = [CHR 0x09] @ ''<Telegram RawData="00000000000000000000"></Telegram>'' @ [CHR 0x0A]\<close>

section \<open>Properties of the frame decoders\<close>

subsection \<open>Parsing and rendering bytes\<close>

lemma hex_val_range: "hex_val c = Some d \<Longrightarrow> 0 \<le> d \<and> d \<le> 15"
  by (auto simp: hex_val_def Let_def split: if_splits)

lemma hex_val_not_special:
  assumes "hex_val c = Some d"
  shows "c \<noteq> CHR ''_''" "c \<noteq> CHR ''+''" "c \<noteq> CHR ''-''" "c \<noteq> CHR ''x''" "c \<noteq> CHR ''X''" "\<not> int_isspace c"
  using assms by (auto simp: hex_val_def int_isspace_def Let_def split: if_splits)

lemma py_int16_hex2:
  assumes "hex_val a = Some x" "hex_val b = Some y"
  shows "py_int16 [a, b] = Some (16 * x + y)"
  using assms hex_val_not_special[OF assms(1)] hex_val_not_special[OF assms(2)]
  by (simp add: py_int16_def skip_sign_def skip_prefix_def startswith_def)

lemma scan_digits_bound:
  "scan_digits us acc s = Some (v, rest) \<Longrightarrow> 0 \<le> acc \<Longrightarrow> 0 \<le> v \<and> v < (acc + 1) * 16 ^ length s"
proof (induction s arbitrary: us acc)
  case Nil
  then show ?case by (simp split: if_splits)
next
  case (Cons c cs)
  have step: "(acc + 1) * 16 ^ length cs \<le> (acc + 1) * 16 ^ length (c # cs)"
    using Cons.prems(2) by (simp add: mult_left_mono)
  show ?case
  proof (cases "c = CHR ''_''")
    case True
    with Cons.prems have "scan_digits True acc cs = Some (v, rest)"
      by (simp split: if_splits)
    from Cons.IH [OF this Cons.prems(2)] step show ?thesis by linarith
  next
    case False
    show ?thesis
    proof (cases "hex_val c")
      case None
      with False Cons.prems have "v = acc" by (simp split: if_splits)
      moreover have "acc < (acc + 1) * 16 ^ length (c # cs)"
      proof -
        have "(1::int) \<le> 16 ^ length (c # cs)" by (rule one_le_power) simp
        then have "(acc + 1) * 1 \<le> (acc + 1) * 16 ^ length (c # cs)"
          using Cons.prems(2) by (intro mult_left_mono) simp_all
        then show ?thesis by simp
      qed
      ultimately show ?thesis using Cons.prems(2) by simp
    next
      case (Some d)
      with False Cons.prems have sc: "scan_digits False (16 * acc + d) cs = Some (v, rest)"
        by simp
      have d: "0 \<le> d" "d \<le> 15" using hex_val_range [OF Some] by simp_all
      have "0 \<le> 16 * acc + d" using d Cons.prems(2) by simp
      from Cons.IH [OF sc this] have v: "0 \<le> v" "v < (16 * acc + d + 1) * 16 ^ length cs"
        by simp_all
      have "(16 * acc + d + 1) * 16 ^ length cs \<le> (16 * (acc + 1)) * 16 ^ length cs"
        using d by (intro mult_right_mono) simp_all
      also have "\<dots> = (acc + 1) * 16 ^ length (c # cs)" by simp
      finally have "v < (acc + 1) * 16 ^ length (c # cs)"
        using v(2) by linarith
      with v(1) show ?thesis by blast
    qed
  qed
qed

lemma skip_sign_length:
  "skip_sign s = (neg, r) \<Longrightarrow> length r \<le> length s \<and> (neg \<longrightarrow> length r < length s)"
  by (auto simp: skip_sign_def split: list.splits if_splits)

lemma skip_prefix_length: "length (skip_prefix s) \<le> length s"
  by (auto simp: skip_prefix_def split: list.splits if_splits)

lemma py_int16_range:
  assumes "py_int16 s = Some v" "length s \<le> 2"
  shows "- 15 \<le> v \<and> v \<le> 255"
proof -
  obtain neg s2 where ss: "skip_sign (dropWhile int_isspace s) = (neg, s2)"
    by (cases "skip_sign (dropWhile int_isspace s)")
  define s3 where "s3 = skip_prefix s2"
  have l1: "length (dropWhile int_isspace s) \<le> 2"
    using assms(2) length_dropWhile_le [of int_isspace s] by linarith
  from skip_sign_length [OF ss] l1 have l2: "length s2 \<le> 2" "neg \<Longrightarrow> length s2 \<le> 1"
    by auto
  have l3: "length s3 \<le> 2" "neg \<Longrightarrow> length s3 \<le> 1"
    using l2 skip_prefix_length [of s2] unfolding s3_def by auto
  from assms(1) ss obtain w rest where sc: "scan_digits False 0 s3 = Some (w, rest)"
    and v: "v = (if neg then - w else w)"
    by (auto simp: py_int16_def s3_def Let_def split: if_splits option.splits)
  from scan_digits_bound [OF sc] have w: "0 \<le> w" "w < 16 ^ length s3" by simp_all
  have "(16::int) ^ length s3 \<le> 16 ^ 2" using l3(1) by (intro power_increasing) simp_all
  then have w2: "w < 256" using w by simp
  show ?thesis
  proof (cases neg)
    case False
    then show ?thesis using v w w2 by simp
  next
    case True
    have "(16::int) ^ length s3 \<le> 16 ^ 1" using l3(2) [OF True] by (intro power_increasing) simp_all
    then show ?thesis using v w True by simp
  qed
qed

lemma drop_and: "drop_bit 4 ((b::int) AND 240) = drop_bit 4 b AND 15"
proof -
  have "drop_bit 4 (b AND 240) = drop_bit 4 b AND drop_bit 4 240"
    by (rule drop_bit_and) 
  then show ?thesis by simp
qed

lemma nibble_range: "0 \<le> (b::int) AND 15 \<and> b AND 15 \<le> 15"
  by (simp add: AND_upper2')

lemma high_nibble_range: "0 \<le> drop_bit 4 ((b::int) AND 240) \<and> drop_bit 4 (b AND 240) \<le> 15"
  unfolding drop_and by (simp add: AND_upper2')

subsection \<open>The group address of a data frame\<close>

lemma slice_len: "length (slice s i j) \<le> j - i"
  by (simp add: slice_def)

lemma not_ack_short: "\<not> is_ack raw \<Longrightarrow> length raw < 32 \<Longrightarrow> extract_group_address raw = ''IGNORE''"
  by (simp add: extract_group_address_def extract_group_address_try_def is_ack_def)

lemma ack_ignore: "is_ack raw \<Longrightarrow> extract_group_address raw = ''IGNORE''"
  by (simp add: extract_group_address_def extract_group_address_try_def is_ack_def)

lemma long_try:
  assumes "32 \<le> length raw"
  shows "extract_group_address_try raw =
     (case py_int16 (slice raw 28 30) of None \<Rightarrow> None
      | Some byte1 \<Rightarrow> (case py_int16 (slice raw 30 32) of None \<Rightarrow> None
          | Some byte2 \<Rightarrow> Some (render_ga (drop_bit 4 (byte1 AND 240)) (byte1 AND 15) byte2)))"
  using assms by (simp add: extract_group_address_try_def Let_def split: option.splits)

lemma decode_hex:
  assumes "raw = pre @ [a, b, c, d] @ post" "length pre = 28"
    "hex_val a = Some x1" "hex_val b = Some x2" "hex_val c = Some y1" "hex_val d = Some y2"
  shows "extract_group_address raw =
     render_ga (drop_bit 4 (16 * x1 + x2) AND 15) ((16 * x1 + x2) AND 15) (16 * y1 + y2)"
proof -
  have len: "32 \<le> length raw" using assms(1,2) by simp
  have s1: "slice raw 28 30 = [a, b]" using assms(1,2) by (simp add: slice_def)
  have s2: "slice raw 30 32 = [c, d]" using assms(1,2) by (simp add: slice_def)
  show ?thesis
    unfolding extract_group_address_def long_try [OF len] s1 s2
      py_int16_hex2 [OF assms(3,4)] py_int16_hex2 [OF assms(5,6)]
    by (simp add: drop_and)
qed

lemma show_int_digit: "0 \<le> i \<Longrightarrow> i < 10 \<Longrightarrow> show_int i = [digit_char (nat i)]"
  by (simp add: show_int_def show_nat.simps)

text \<open>
  Claim C3, as the code has it. For a raw string that is not an acknowledgement, a length
  below 32 (not 28: the four characters of the destination must be there) gives the
  sentinel \<open>IGNORE\<close>. Otherwise the two bytes at offset 28 are read: with hexadecimal
  digits \<open>a b c d\<close> at offsets 28 to 31, \<open>byte1 = 16 a + b\<close> and \<open>byte2 = 16 c + d\<close>, the
  result is \<open>main/middle/sub\<close> with \<open>main = (byte1 >> 4) & 0xF\<close>, \<open>middle = byte1 & 0xF\<close>
  and \<open>sub = byte2\<close>. The bytes \<open>0x23 0x05\<close> at offset 28 decode to \<open>2/3/5\<close>.
\<close>
theorem extract_group_address_data_frame:
  assumes "\<not> is_ack raw"
  shows "(length raw < 32 \<longrightarrow> extract_group_address raw = ''IGNORE'') \<and>
    (\<forall>pre a b c d post x1 x2 y1 y2.
        raw = pre @ [a, b, c, d] @ post \<and> length pre = 28 \<and>
        hex_val a = Some x1 \<and> hex_val b = Some x2 \<and> hex_val c = Some y1 \<and> hex_val d = Some y2
        \<longrightarrow> extract_group_address raw =
            render_ga (drop_bit 4 (16 * x1 + x2) AND 15) ((16 * x1 + x2) AND 15) (16 * y1 + y2)) \<and>
    (\<forall>pre post. raw = pre @ ''2305'' @ post \<and> length pre = 28
        \<longrightarrow> extract_group_address raw = ''2/3/5'')"
proof (intro conjI allI impI)
  assume "length raw < 32"
  with assms show "extract_group_address raw = ''IGNORE''" by (rule not_ack_short)
next
  fix pre a b c d post x1 x2 y1 y2
  assume "raw = pre @ [a, b, c, d] @ post \<and> length pre = 28 \<and>
        hex_val a = Some x1 \<and> hex_val b = Some x2 \<and> hex_val c = Some y1 \<and> hex_val d = Some y2"
  then have "raw = pre @ [a, b, c, d] @ post" "length pre = 28"
    "hex_val a = Some x1" "hex_val b = Some x2" "hex_val c = Some y1" "hex_val d = Some y2"
    by blast+
  then show "extract_group_address raw =
            render_ga (drop_bit 4 (16 * x1 + x2) AND 15) ((16 * x1 + x2) AND 15) (16 * y1 + y2)"
    by (rule decode_hex)
next
  fix pre post
  assume a: "raw = pre @ ''2305'' @ post \<and> length pre = 28"
  have h: "hex_val CHR ''2'' = Some 2" "hex_val CHR ''3'' = Some 3"
    "hex_val CHR ''0'' = Some 0" "hex_val CHR ''5'' = Some 5"
    by (simp_all add: hex_val_def)
  from a have r: "raw = pre @ [CHR ''2'', CHR ''3'', CHR ''0'', CHR ''5''] @ post" and l: "length pre = 28"
    by simp_all
  have "extract_group_address raw =
     render_ga (drop_bit 4 (16 * 2 + 3) AND 15) ((16 * 2 + 3) AND 15) (16 * 0 + 5)"
    by (rule decode_hex [OF r l h])
  also have "\<dots> = ''2/3/5''"
    by (simp add: render_ga_def show_int_digit digit_char_def)
  finally show "extract_group_address raw = ''2/3/5''" .
qed

text \<open>
  C3 at two frames: one of 36 characters with \<open>2305\<close> at offset 28, one of 30 characters.
\<close>
theorem extract_group_address_data_frame_witness:
  "\<not> is_ack ''0000000000000000000000BCAABB2305E100'' \<and>
   extract_group_address ''0000000000000000000000BCAABB2305E100'' = ''2/3/5'' \<and>
   \<not> is_ack ''0000000000000000000000BCAABB23'' \<and>
   extract_group_address ''0000000000000000000000BCAABB23'' = ''IGNORE''"
proof -
  have n1: "\<not> is_ack ''0000000000000000000000BCAABB2305E100''"
    by (simp add: is_ack_def)
  have n2: "\<not> is_ack ''0000000000000000000000BCAABB23''"
    by (simp add: is_ack_def endswith_def)
  have e: "''0000000000000000000000BCAABB2305E100'' = ''0000000000000000000000BCAABB'' @ ''2305'' @ ''E100''"
    by simp
  from extract_group_address_data_frame [OF n1]
  have "\<forall>pre post. ''0000000000000000000000BCAABB2305E100'' = pre @ ''2305'' @ post \<and> length pre = 28
        \<longrightarrow> extract_group_address ''0000000000000000000000BCAABB2305E100'' = ''2/3/5''"
    by (elim conjE)
  from this [rule_format, of "''0000000000000000000000BCAABB''" "''E100''"]
  have "extract_group_address ''0000000000000000000000BCAABB2305E100'' = ''2/3/5''"
    by simp
  moreover from extract_group_address_data_frame [OF n2]
  have "extract_group_address ''0000000000000000000000BCAABB23'' = ''IGNORE''"
    by simp
  ultimately show ?thesis using n1 n2 by blast
qed

text \<open>
  C3 as the specification words it fails on a frame of 30 characters: it is no
  acknowledgement, its length is not below 28, and yet the decoder answers \<open>IGNORE\<close>
  instead of reading bytes at offset 28.
\<close>
theorem extract_group_address_short_counterexample:
  "\<not> is_ack ''0000000000000000000000BCAABB23'' \<and>
   \<not> length ''0000000000000000000000BCAABB23'' < 28 \<and>
   extract_group_address ''0000000000000000000000BCAABB23'' = ''IGNORE''"
  by (simp add: is_ack_def endswith_def extract_group_address_def extract_group_address_try_def)

subsection \<open>Totality and sentinels\<close>
lemma physical_try:
  assumes "\<not> endswith raw ''CC''" "26 \<le> length raw"
  shows "get_physical_address_try raw =
     (case py_int16 (slice raw 24 26) of None \<Rightarrow> None
      | Some byte1 \<Rightarrow> (case py_int16 (slice raw 26 28) of None \<Rightarrow> None
          | Some byte2 \<Rightarrow> Some (render_pa (drop_bit 4 (byte1 AND 240)) (byte1 AND 15) byte2)))"
  using assms by (simp add: get_physical_address_try_def Let_def split: option.splits)

lemma extract_group_address_forms:
  "extract_group_address raw = ''IGNORE'' \<or> extract_group_address raw = [] \<or>
   (\<exists>h m u. 0 \<le> h \<and> h \<le> 15 \<and> 0 \<le> m \<and> m \<le> 15 \<and> - 15 \<le> u \<and> u \<le> 255 \<and>
      extract_group_address raw = render_ga h m u)"
proof (cases "is_ack raw \<or> length raw < 32")
  case True
  then have "extract_group_address raw = ''IGNORE''"
    using ack_ignore not_ack_short by blast
  then show ?thesis by blast
next
  case False
  then have len: "32 \<le> length raw" by simp
  show ?thesis
  proof (cases "extract_group_address_try raw")
    case None
    then show ?thesis by (simp add: extract_group_address_def)
  next
    case (Some r)
    then obtain b1 b2 where b: "py_int16 (slice raw 28 30) = Some b1" "py_int16 (slice raw 30 32) = Some b2"
      and r: "r = render_ga (drop_bit 4 (b1 AND 240)) (b1 AND 15) b2"
      unfolding long_try [OF len] by (auto split: option.splits)
    have "length (slice raw 30 32) \<le> 2" using slice_len [of raw 30 32] by simp
    from py_int16_range [OF b(2) this] have "- 15 \<le> b2" "b2 \<le> 255" by simp_all
    moreover have "extract_group_address raw = render_ga (drop_bit 4 (b1 AND 240)) (b1 AND 15) b2"
      using Some r by (simp add: extract_group_address_def)
    ultimately show ?thesis
      using nibble_range [of b1] high_nibble_range [of b1] by blast
  qed
qed

lemma get_physical_address_forms:
  "get_physical_address raw = [] \<or>
   (\<exists>h l t. 0 \<le> h \<and> h \<le> 15 \<and> 0 \<le> l \<and> l \<le> 15 \<and> - 15 \<le> t \<and> t \<le> 255 \<and>
      get_physical_address raw = render_pa h l t)"
proof (cases "endswith raw ''CC'' \<or> length raw < 26")
  case True
  then have "get_physical_address raw = []"
    by (auto simp: get_physical_address_def get_physical_address_try_def)
  then show ?thesis by blast
next
  case False
  then have c: "\<not> endswith raw ''CC''" "26 \<le> length raw" by simp_all
  show ?thesis
  proof (cases "get_physical_address_try raw")
    case None
    then show ?thesis by (simp add: get_physical_address_def)
  next
    case (Some r)
    then obtain b1 b2 where b: "py_int16 (slice raw 24 26) = Some b1" "py_int16 (slice raw 26 28) = Some b2"
      and r: "r = render_pa (drop_bit 4 (b1 AND 240)) (b1 AND 15) b2"
      unfolding physical_try [OF c] by (auto split: option.splits)
    have "length (slice raw 26 28) \<le> 2" using slice_len [of raw 26 28] by simp
    from py_int16_range [OF b(2) this] have "- 15 \<le> b2" "b2 \<le> 255" by simp_all
    moreover have "get_physical_address raw = render_pa (drop_bit 4 (b1 AND 240)) (b1 AND 15) b2"
      using Some r by (simp add: get_physical_address_def)
    ultimately show ?thesis
      using nibble_range [of b1] high_nibble_range [of b1] by blast
  qed
qed

text \<open>
  Claim C4. For every input string both decoders return a value of a known shape, and an
  exception raised inside the \<open>try\<close> block never leaves them. The group-address decoder
  returns \<open>IGNORE\<close>, the empty string, or a rendered address whose main and middle group
  lie in 0..15 and whose sub group lies in -15..255 (a two-character field such as \<open>-F\<close>
  is accepted by \<open>int\<close>); the physical-address decoder returns the empty string or a
  rendered address with the same bounds. When the body raises, the result is the empty
  string. Equal inputs give equal outputs.
\<close>
theorem decoders_total:
  "(extract_group_address raw = ''IGNORE'' \<or> extract_group_address raw = [] \<or>
     (\<exists>h m u. 0 \<le> h \<and> h \<le> 15 \<and> 0 \<le> m \<and> m \<le> 15 \<and> - 15 \<le> u \<and> u \<le> 255 \<and>
        extract_group_address raw = render_ga h m u)) \<and>
   (get_physical_address raw = [] \<or>
     (\<exists>h l t. 0 \<le> h \<and> h \<le> 15 \<and> 0 \<le> l \<and> l \<le> 15 \<and> - 15 \<le> t \<and> t \<le> 255 \<and>
        get_physical_address raw = render_pa h l t)) \<and>
   (extract_group_address_try raw = None \<longrightarrow> extract_group_address raw = []) \<and>
   (get_physical_address_try raw = None \<longrightarrow> get_physical_address raw = []) \<and>
   (raw = raw' \<longrightarrow> extract_group_address raw = extract_group_address raw' \<and>
      get_physical_address raw = get_physical_address raw')"
  using extract_group_address_forms [of raw] get_physical_address_forms [of raw]
  by (simp add: extract_group_address_def get_physical_address_def)

text \<open>C4 at a frame whose destination field is not hexadecimal, and at the empty string.\<close>
lemma zz_try: "extract_group_address_try ''0000000000000000000000BCAABBZZZZE100'' = None"
  "get_physical_address_try ''0000000000000000000000BCZZZZ2305E100'' = None"
  by (simp_all add: extract_group_address_try_def get_physical_address_try_def endswith_def slice_def
      py_int16_def skip_sign_def skip_prefix_def startswith_def hex_val_def int_isspace_def)

theorem decoders_total_witness:
  "extract_group_address_try ''0000000000000000000000BCAABBZZZZE100'' = None \<and>
   extract_group_address ''0000000000000000000000BCAABBZZZZE100'' = [] \<and>
   extract_group_address [] = ''IGNORE'' \<and> get_physical_address [] = []"
proof -
  have "extract_group_address ''0000000000000000000000BCAABBZZZZE100'' = []"
    using decoders_total [of "''0000000000000000000000BCAABBZZZZE100''" "''0000000000000000000000BCAABBZZZZE100''"]
      zz_try(1) by blast
  moreover have "extract_group_address [] = ''IGNORE''" "get_physical_address [] = []"
    by (simp_all add: extract_group_address_def extract_group_address_try_def
        get_physical_address_def get_physical_address_try_def endswith_def)
  ultimately show ?thesis using zz_try(1) by blast
qed

lemma render_ga_slash: "CHR ''/'' \<in> set (render_ga h m u)"
  by (simp add: render_ga_def)

lemma render_ga_no_sentinel: "render_ga h m u \<noteq> [] \<and> render_ga h m u \<noteq> ''IGNORE''"
proof -
  have "CHR ''/'' \<notin> set []" "CHR ''/'' \<notin> set ''IGNORE''" by simp_all
  with render_ga_slash [of h m u] show ?thesis by metis
qed

lemma long_result:
  assumes "32 \<le> length raw"
  shows "(py_int16 (slice raw 28 30) = None \<or> py_int16 (slice raw 30 32) = None
            \<longrightarrow> extract_group_address raw = []) \<and>
         (\<not> (py_int16 (slice raw 28 30) = None \<or> py_int16 (slice raw 30 32) = None)
            \<longrightarrow> extract_group_address raw \<noteq> [] \<and> extract_group_address raw \<noteq> ''IGNORE'')"
  unfolding extract_group_address_def long_try [OF assms]
  using render_ga_no_sentinel by (auto split: option.splits)

lemma ack_is_short: "is_ack raw \<Longrightarrow> length raw < 32"
  by (simp add: is_ack_def)

text \<open>
  Claim C5, as the code has it. The decoder has two sentinel values, and they do not
  separate acknowledgements from short frames. It returns \<open>IGNORE\<close> exactly for the
  acknowledgement frames and the frames of fewer than 32 characters, so an acknowledgement
  and a too-short frame share one sentinel. It returns the empty string exactly for the
  frames of at least 32 characters with a destination byte that \<open>int\<close> rejects. The two
  values differ, and a decoded address is neither of them.
\<close>
theorem extract_group_address_sentinels:
  "(is_ack raw \<longrightarrow> extract_group_address raw = ''IGNORE'') \<and>
   (\<not> is_ack raw \<and> length raw < 32 \<longrightarrow> extract_group_address raw = ''IGNORE'') \<and>
   (extract_group_address raw = ''IGNORE'' \<longleftrightarrow> is_ack raw \<or> length raw < 32) \<and>
   (extract_group_address raw = [] \<longleftrightarrow>
      32 \<le> length raw \<and> (py_int16 (slice raw 28 30) = None \<or> py_int16 (slice raw 30 32) = None)) \<and>
   ''IGNORE'' \<noteq> ([] :: string)"
proof (cases "is_ack raw \<or> length raw < 32")
  case True
  then have i: "extract_group_address raw = ''IGNORE''"
    using ack_ignore not_ack_short by blast
  from True have "\<not> 32 \<le> length raw" using ack_is_short by fastforce
  with True i show ?thesis by simp
next
  case False
  then have len: "32 \<le> length raw" by simp
  show ?thesis
  proof (cases "py_int16 (slice raw 28 30) = None \<or> py_int16 (slice raw 30 32) = None")
    case True
    with long_result [OF len] have "extract_group_address raw = []" by blast
    with False True len show ?thesis by simp
  next
    case np: False
    with long_result [OF len]
    have "extract_group_address raw \<noteq> []" "extract_group_address raw \<noteq> ''IGNORE''" by blast+
    with False np show ?thesis by simp
  qed
qed

text \<open>
  C5 at an acknowledgement, a short frame, a frame with a malformed destination and a
  frame that decodes.
\<close>
theorem extract_group_address_sentinels_witness:
  "is_ack ''00CC'' \<and> extract_group_address ''00CC'' = ''IGNORE'' \<and>
   \<not> is_ack ''0000'' \<and> extract_group_address ''0000'' = ''IGNORE'' \<and>
   extract_group_address ''0000000000000000000000BCAABBZZZZE100'' = [] \<and>
   extract_group_address ''0000000000000000000000BCAABB0000E100'' \<noteq> [] \<and>
   extract_group_address ''0000000000000000000000BCAABB0000E100'' \<noteq> ''IGNORE''"
proof -
  have a: "is_ack ''00CC''" "\<not> is_ack ''0000''"
    "\<not> is_ack ''0000000000000000000000BCAABB0000E100''"
    by (simp_all add: is_ack_def endswith_def)
  have p: "py_int16 (slice ''0000000000000000000000BCAABBZZZZE100'' 28 30) = None"
    by (simp add: slice_def py_int16_def skip_sign_def skip_prefix_def startswith_def
        hex_val_def int_isspace_def)
  have q: "py_int16 (slice ''0000000000000000000000BCAABB0000E100'' 28 30) \<noteq> None"
    "py_int16 (slice ''0000000000000000000000BCAABB0000E100'' 30 32) \<noteq> None"
    by code_simp+
  show ?thesis
    using a p q extract_group_address_sentinels [of "''00CC''"]
      extract_group_address_sentinels [of "''0000''"]
      extract_group_address_sentinels [of "''0000000000000000000000BCAABBZZZZE100''"]
      extract_group_address_sentinels [of "''0000000000000000000000BCAABB0000E100''"]
    by simp
qed

text \<open>
  C5 as the specification words it fails: an acknowledgement frame and a too-short frame
  that is no acknowledgement get the very same result, so the two cases cannot be told
  apart from the decoder's answer.
\<close>
theorem extract_group_address_sentinels_counterexample:
  "is_ack ''00CC'' \<and> \<not> is_ack ''0000'' \<and> length ''0000'' < 28 \<and>
   extract_group_address ''00CC'' = extract_group_address ''0000''"
  by (simp add: is_ack_def endswith_def extract_group_address_def extract_group_address_try_def)

section \<open>Properties of the partition loop\<close>

subsection \<open>One pass through the loop body\<close>

lemma startswith_iff: "startswith s p \<longleftrightarrow> (\<exists>rest. s = p @ rest)"
proof
  assume "startswith s p"
  then have "s = p @ drop (length p) s"
    by (metis append_take_drop_id startswith_def)
  then show "\<exists>rest. s = p @ rest" ..
next
  assume "\<exists>rest. s = p @ rest"
  then show "startswith s p" by (auto simp: startswith_def)
qed

lemma is_ack_nonempty: "is_ack raw \<Longrightarrow> raw \<noteq> []"
  by (auto simp: is_ack_def endswith_def)

lemma split_step_skip: "get_rawdata t = [] \<Longrightarrow> split_step fl st t = st"
  by (simp add: split_step_def)

lemma split_step_ack:
  assumes "is_ack (get_rawdata t)"
  shows "split_step fl st t =
    (if last_destination st = Some Other
     then st\<lparr> other_telegrams := other_telegrams st @ [t], other_comments := other_comments st @ [[]] \<rparr>
     else st\<lparr> filtered_telegrams := filtered_telegrams st @ [t],
              filtered_comments := filtered_comments st @ [[]] \<rparr>)"
  using assms is_ack_nonempty [OF assms] by (simp add: split_step_def)

lemma split_step_ignore:
  assumes "get_rawdata t \<noteq> []" "\<not> is_ack (get_rawdata t)"
    "extract_group_address (get_rawdata t) = ''IGNORE'' \<or> extract_group_address (get_rawdata t) = []"
  shows "split_step fl st t =
    st\<lparr> filtered_telegrams := filtered_telegrams st @ [t],
        filtered_comments := filtered_comments st @ [ign_comment (get_physical_address (get_rawdata t))],
        last_destination := Some Filtered \<rparr>"
  using assms by (auto simp: split_step_def Let_def)

lemma split_step_match:
  assumes "get_rawdata t \<noteq> []" "\<not> is_ack (get_rawdata t)"
    "extract_group_address (get_rawdata t) \<noteq> ''IGNORE''" "extract_group_address (get_rawdata t) \<noteq> []"
    "list_ex (startswith (extract_group_address (get_rawdata t))) fl"
  shows "split_step fl st t =
    st\<lparr> filtered_telegrams := filtered_telegrams st @ [t],
        filtered_comments := filtered_comments st @
          [ga_comment (extract_group_address (get_rawdata t)) (get_physical_address (get_rawdata t))],
        last_effective_ga := Some (extract_group_address (get_rawdata t)),
        last_destination := Some Filtered \<rparr>"
  using assms by (simp add: split_step_def Let_def)

lemma split_step_nomatch:
  assumes "get_rawdata t \<noteq> []" "\<not> is_ack (get_rawdata t)"
    "extract_group_address (get_rawdata t) \<noteq> ''IGNORE''" "extract_group_address (get_rawdata t) \<noteq> []"
    "\<not> list_ex (startswith (extract_group_address (get_rawdata t))) fl"
  shows "split_step fl st t =
    st\<lparr> other_telegrams := other_telegrams st @ [t],
        other_comments := other_comments st @
          [ga_comment (extract_group_address (get_rawdata t)) (get_physical_address (get_rawdata t))],
        last_effective_ga := Some (extract_group_address (get_rawdata t)),
        last_destination := Some Other \<rparr>"
  using assms by (simp add: split_step_def Let_def)

text \<open>Each routed telegram goes to exactly one list, with one comment.\<close>

lemma split_step_routed:
  assumes "get_rawdata t \<noteq> []"
  shows "(filtered_telegrams (split_step fl st t) = filtered_telegrams st @ [t] \<and>
          other_telegrams (split_step fl st t) = other_telegrams st) \<or>
         (other_telegrams (split_step fl st t) = other_telegrams st @ [t] \<and>
          filtered_telegrams (split_step fl st t) = filtered_telegrams st)"
proof (cases "is_ack (get_rawdata t)")
  case True
  then show ?thesis by (simp add: split_step_ack)
next
  case na: False
  show ?thesis
  proof (cases "extract_group_address (get_rawdata t) = ''IGNORE'' \<or> extract_group_address (get_rawdata t) = []")
    case True
    from split_step_ignore [OF assms na True] show ?thesis by simp
  next
    case False
    then have g: "extract_group_address (get_rawdata t) \<noteq> ''IGNORE''" "extract_group_address (get_rawdata t) \<noteq> []"
      by simp_all
    show ?thesis
    proof (cases "list_ex (startswith (extract_group_address (get_rawdata t))) fl")
      case True
      from split_step_match [OF assms na g True] show ?thesis by simp
    next
      case False
      from split_step_nomatch [OF assms na g False] show ?thesis by simp
    qed
  qed
qed

subsection \<open>The loop as a stable split\<close>
lemma split_loop_snoc: "split_loop fl (ts @ [t]) = split_step fl (split_loop fl ts) t"
  by (simp add: split_loop_def)

lemma nths_snoc_out: "length xs \<notin> A \<Longrightarrow> nths (xs @ [x]) A = nths xs A"
  by (simp add: nths_append)

lemma nths_snoc_in: "length xs \<in> A \<Longrightarrow> nths (xs @ [x]) A = nths xs A @ [x]"
  by (simp add: nths_append)

lemma nths_insert_length: "nths xs (insert (length xs) A) = nths xs A"
  unfolding nths_def
  by (rule arg_cong [where f = "map fst"], rule filter_cong [OF refl]) (auto simp: set_zip)

lemma routed_snoc:
  "routed (ts @ [t]) = (if get_rawdata t = [] then routed ts else insert (length ts) (routed ts))"
  by (auto simp: routed_def nth_append less_Suc_eq)

lemma split_loop_invariant:
  "\<exists>A B. A \<inter> B = {} \<and> A \<union> B = routed ts \<and>
     filtered_telegrams (split_loop fl ts) = nths ts A \<and>
     other_telegrams (split_loop fl ts) = nths ts B"
proof (induction ts rule: rev_induct)
  case Nil
  show ?case by (simp add: split_loop_def init_state_def routed_def)
next
  case (snoc t ts)
  then obtain A B where d: "A \<inter> B = {}" and un: "A \<union> B = routed ts"
    and f: "filtered_telegrams (split_loop fl ts) = nths ts A"
    and ot: "other_telegrams (split_loop fl ts) = nths ts B" by blast
  have bound: "length ts \<notin> A" "length ts \<notin> B" using un by (auto simp: routed_def)
  show ?case
  proof (cases "get_rawdata t = []")
    case True
    have 2: "A \<union> B = routed (ts @ [t])" using un True by (simp add: routed_snoc)
    have 3: "filtered_telegrams (split_loop fl (ts @ [t])) = nths (ts @ [t]) A"
      using f bound True by (simp add: split_loop_snoc split_step_skip nths_snoc_out)
    have 4: "other_telegrams (split_loop fl (ts @ [t])) = nths (ts @ [t]) B"
      using ot bound True by (simp add: split_loop_snoc split_step_skip nths_snoc_out)
    show ?thesis using d 2 3 4 by blast
  next
    case False
    from split_step_routed [OF False, of fl "split_loop fl ts"] show ?thesis
    proof
      assume a: "filtered_telegrams (split_step fl (split_loop fl ts) t) = filtered_telegrams (split_loop fl ts) @ [t] \<and>
          other_telegrams (split_step fl (split_loop fl ts) t) = other_telegrams (split_loop fl ts)"
      have 1: "insert (length ts) A \<inter> B = {}" using d bound by auto
      have 2: "insert (length ts) A \<union> B = routed (ts @ [t])"
        using un False by (auto simp: routed_snoc)
      have 3: "filtered_telegrams (split_loop fl (ts @ [t])) = nths (ts @ [t]) (insert (length ts) A)"
        using a f by (simp add: split_loop_snoc nths_snoc_in nths_insert_length)
      have 4: "other_telegrams (split_loop fl (ts @ [t])) = nths (ts @ [t]) B"
        using a ot bound by (simp add: split_loop_snoc nths_snoc_out)
      show ?thesis using 1 2 3 4 by blast
    next
      assume a: "other_telegrams (split_step fl (split_loop fl ts) t) = other_telegrams (split_loop fl ts) @ [t] \<and>
          filtered_telegrams (split_step fl (split_loop fl ts) t) = filtered_telegrams (split_loop fl ts)"
      have 1: "A \<inter> insert (length ts) B = {}" using d bound by auto
      have 2: "A \<union> insert (length ts) B = routed (ts @ [t])"
        using un False by (auto simp: routed_snoc)
      have 3: "filtered_telegrams (split_loop fl (ts @ [t])) = nths (ts @ [t]) A"
        using a f bound by (simp add: split_loop_snoc nths_snoc_out)
      have 4: "other_telegrams (split_loop fl (ts @ [t])) = nths (ts @ [t]) (insert (length ts) B)"
        using a ot by (simp add: split_loop_snoc nths_snoc_in nths_insert_length)
      show ?thesis using 1 2 3 4 by blast
    qed
  qed
qed

text \<open>
  Claim C1. The positions of the telegrams with a non-empty raw frame are split into two
  disjoint sets \<open>A\<close> and \<open>B\<close>; the filtered collection is the input restricted to \<open>A\<close>, the
  other collection the input restricted to \<open>B\<close>, each in input order. So every such
  telegram is in exactly one collection, once, a telegram with a missing or empty raw
  frame is in neither, and reading the two collections back by position gives the input
  without the skipped telegrams.
\<close>
theorem split_loop_partition:
  "\<exists>A B. A \<inter> B = {} \<and>
     A \<union> B = {i. i < length ts \<and> get_rawdata (ts ! i) \<noteq> []} \<and>
     filtered_telegrams (split_loop fl ts) = nths ts A \<and>
     other_telegrams (split_loop fl ts) = nths ts B \<and>
     nths ts (A \<union> B) = filter (\<lambda>t. get_rawdata t \<noteq> []) ts"
proof -
  from split_loop_invariant [of ts fl] obtain A B where
    h: "A \<inter> B = {}" "A \<union> B = routed ts"
      "filtered_telegrams (split_loop fl ts) = nths ts A"
      "other_telegrams (split_loop fl ts) = nths ts B" by blast
  have "nths ts (A \<union> B) = filter (\<lambda>t. get_rawdata t \<noteq> []) ts"
    unfolding h(2) routed_def by (simp add: filter_eq_nths)
  with h show ?thesis unfolding routed_def by blast
qed

subsection \<open>Acknowledgements\<close>
lemma nondata_keeps_destination:
  "get_rawdata x = [] \<or> is_ack (get_rawdata x) \<Longrightarrow>
   last_destination (split_step fl s x) = last_destination s"
  by (auto simp: split_step_skip split_step_ack)

lemma foldl_nondata_keeps_destination:
  "list_all (\<lambda>x. get_rawdata x = [] \<or> is_ack (get_rawdata x)) xs \<Longrightarrow>
   last_destination (foldl (split_step fl) s xs) = last_destination s"
  by (induction xs arbitrary: s) (simp_all add: nondata_keeps_destination)

lemma data_destination:
  assumes "get_rawdata d \<noteq> []" "\<not> is_ack (get_rawdata d)"
  shows "(last_destination (split_step fl s d) = Some Filtered \<and>
          filtered_telegrams (split_step fl s d) = filtered_telegrams s @ [d] \<and>
          other_telegrams (split_step fl s d) = other_telegrams s) \<or>
         (last_destination (split_step fl s d) = Some Other \<and>
          other_telegrams (split_step fl s d) = other_telegrams s @ [d] \<and>
          filtered_telegrams (split_step fl s d) = filtered_telegrams s)"
proof (cases "extract_group_address (get_rawdata d) = ''IGNORE'' \<or> extract_group_address (get_rawdata d) = []")
  case True
  from split_step_ignore [OF assms True] show ?thesis by simp
next
  case False
  then have g: "extract_group_address (get_rawdata d) \<noteq> ''IGNORE''" "extract_group_address (get_rawdata d) \<noteq> []"
    by simp_all
  show ?thesis
  proof (cases "list_ex (startswith (extract_group_address (get_rawdata d))) fl")
    case True
    from split_step_match [OF assms g True] show ?thesis by simp
  next
    case False
    from split_step_nomatch [OF assms g False] show ?thesis by simp
  qed
qed

lemma split_loop_after_data:
  "split_loop fl (p1 @ [d] @ p2) = foldl (split_step fl) (split_step fl (split_loop fl p1) d) p2"
  by (simp add: split_loop_def)

text \<open>
  Claim C2. Let \<open>a\<close> be an acknowledgement that follows the telegrams \<open>pre\<close>. If \<open>d\<close> is
  the nearest telegram before \<open>a\<close> that was routed and is no acknowledgement (between \<open>d\<close>
  and \<open>a\<close> there are only acknowledgements and skipped telegrams, which no stream
  receives), then \<open>a\<close> is appended with an empty comment to the stream that received \<open>d\<close>,
  and nothing else changes. If there is no such telegram, \<open>a\<close> goes to the filtered stream.
  Routing an acknowledgement leaves \<open>last_destination\<close> as it was, in every state.
\<close>
theorem ack_follows_last_routed_frame:
  assumes "is_ack (get_rawdata a)"
  shows "(\<forall>p1 d p2.
            pre = p1 @ [d] @ p2 \<and> get_rawdata d \<noteq> [] \<and> \<not> is_ack (get_rawdata d) \<and>
            list_all (\<lambda>x. get_rawdata x = [] \<or> is_ack (get_rawdata x)) p2 \<longrightarrow>
          (filtered_telegrams (split_step fl (split_loop fl p1) d) = filtered_telegrams (split_loop fl p1) @ [d]
             \<longrightarrow> split_step fl (split_loop fl pre) a =
                  (split_loop fl pre)\<lparr> filtered_telegrams := filtered_telegrams (split_loop fl pre) @ [a],
                                       filtered_comments := filtered_comments (split_loop fl pre) @ [[]] \<rparr>) \<and>
          (other_telegrams (split_step fl (split_loop fl p1) d) = other_telegrams (split_loop fl p1) @ [d]
             \<longrightarrow> split_step fl (split_loop fl pre) a =
                  (split_loop fl pre)\<lparr> other_telegrams := other_telegrams (split_loop fl pre) @ [a],
                                       other_comments := other_comments (split_loop fl pre) @ [[]] \<rparr>)) \<and>
         (list_all (\<lambda>x. get_rawdata x = [] \<or> is_ack (get_rawdata x)) pre \<longrightarrow>
            split_step fl (split_loop fl pre) a =
              (split_loop fl pre)\<lparr> filtered_telegrams := filtered_telegrams (split_loop fl pre) @ [a],
                                   filtered_comments := filtered_comments (split_loop fl pre) @ [[]] \<rparr>) \<and>
         (\<forall>st. last_destination (split_step fl st a) = last_destination st)"
proof (intro conjI allI impI)
  fix p1 d p2
  assume h: "pre = p1 @ [d] @ p2 \<and> get_rawdata d \<noteq> [] \<and> \<not> is_ack (get_rawdata d) \<and>
            list_all (\<lambda>x. get_rawdata x = [] \<or> is_ack (get_rawdata x)) p2"
  then have ld: "last_destination (split_loop fl pre) = last_destination (split_step fl (split_loop fl p1) d)"
    by (simp only: split_loop_after_data foldl_nondata_keeps_destination)
  from h have dd: "get_rawdata d \<noteq> []" "\<not> is_ack (get_rawdata d)" by simp_all
  {
    assume "filtered_telegrams (split_step fl (split_loop fl p1) d) = filtered_telegrams (split_loop fl p1) @ [d]"
    with data_destination [OF dd, of fl "split_loop fl p1"]
    have "last_destination (split_step fl (split_loop fl p1) d) = Some Filtered" by auto
    with ld show "split_step fl (split_loop fl pre) a =
                  (split_loop fl pre)\<lparr> filtered_telegrams := filtered_telegrams (split_loop fl pre) @ [a],
                                       filtered_comments := filtered_comments (split_loop fl pre) @ [[]] \<rparr>"
      by (simp add: split_step_ack [OF assms])
  }
  {
    assume "other_telegrams (split_step fl (split_loop fl p1) d) = other_telegrams (split_loop fl p1) @ [d]"
    with data_destination [OF dd, of fl "split_loop fl p1"]
    have "last_destination (split_step fl (split_loop fl p1) d) = Some Other" by auto
    with ld show "split_step fl (split_loop fl pre) a =
                  (split_loop fl pre)\<lparr> other_telegrams := other_telegrams (split_loop fl pre) @ [a],
                                       other_comments := other_comments (split_loop fl pre) @ [[]] \<rparr>"
      by (simp add: split_step_ack [OF assms])
  }
next
  assume "list_all (\<lambda>x. get_rawdata x = [] \<or> is_ack (get_rawdata x)) pre"
  then have "last_destination (split_loop fl pre) = None"
    unfolding split_loop_def by (simp add: foldl_nondata_keeps_destination init_state_def)
  then show "split_step fl (split_loop fl pre) a =
              (split_loop fl pre)\<lparr> filtered_telegrams := filtered_telegrams (split_loop fl pre) @ [a],
                                   filtered_comments := filtered_comments (split_loop fl pre) @ [[]] \<rparr>"
    by (simp add: split_step_ack [OF assms])
next
  fix st
  show "last_destination (split_step fl st a) = last_destination st"
    using assms by (simp add: nondata_keeps_destination)
qed

subsection \<open>Data frames\<close>

text \<open>
  Claim C6. A telegram with a non-empty raw frame that is no acknowledgement and whose
  group address decodes to \<open>IGNORE\<close> or to the empty string is appended to the filtered
  stream; its comment is the annotation \<open>GA: IGNORE (unbestimmt) ; QA: {physical}\<close> between
  the XML comment delimiters, with the physical address decoded on its own, and
  \<open>last_destination\<close> becomes \<open>Filtered\<close>. The step is a total function: nothing is raised
  and the telegram is not dropped. A raw frame of 20 characters gets the annotation
  \<open>GA: IGNORE (unbestimmt) ; QA: \<close> with an empty physical address.
\<close>
theorem undecodable_routed_to_filtered:
  assumes "get_rawdata t \<noteq> []" "\<not> is_ack (get_rawdata t)"
  shows "(extract_group_address (get_rawdata t) = ''IGNORE'' \<or> extract_group_address (get_rawdata t) = [] \<longrightarrow>
           split_step fl st t =
             st\<lparr> filtered_telegrams := filtered_telegrams st @ [t],
                 filtered_comments := filtered_comments st @
                   [''<!-- '' @ ''GA: IGNORE (unbestimmt) ; QA: '' @ get_physical_address (get_rawdata t) @ '' -->''],
                 last_destination := Some Filtered \<rparr>) \<and>
         (length (get_rawdata t) = 20 \<longrightarrow>
           split_step fl st t =
             st\<lparr> filtered_telegrams := filtered_telegrams st @ [t],
                 filtered_comments := filtered_comments st @ [''<!-- '' @ ''GA: IGNORE (unbestimmt) ; QA: '' @ '' -->''],
                 last_destination := Some Filtered \<rparr>)"
proof (intro conjI impI)
  assume "extract_group_address (get_rawdata t) = ''IGNORE'' \<or> extract_group_address (get_rawdata t) = []"
  from split_step_ignore [OF assms this]
  show "split_step fl st t =
             st\<lparr> filtered_telegrams := filtered_telegrams st @ [t],
                 filtered_comments := filtered_comments st @
                   [''<!-- '' @ ''GA: IGNORE (unbestimmt) ; QA: '' @ get_physical_address (get_rawdata t) @ '' -->''],
                 last_destination := Some Filtered \<rparr>"
    by (simp add: ign_comment_def)
next
  assume l: "length (get_rawdata t) = 20"
  then have "extract_group_address (get_rawdata t) = ''IGNORE''"
    by (simp add: extract_group_address_def extract_group_address_try_def)
  moreover have "get_physical_address (get_rawdata t) = []"
    using l by (simp add: get_physical_address_def get_physical_address_try_def)
  ultimately show "split_step fl st t =
             st\<lparr> filtered_telegrams := filtered_telegrams st @ [t],
                 filtered_comments := filtered_comments st @ [''<!-- '' @ ''GA: IGNORE (unbestimmt) ; QA: '' @ '' -->''],
                 last_destination := Some Filtered \<rparr>"
    using split_step_ignore [OF assms, of fl st] by (simp add: ign_comment_def)
qed

lemma endswith_slash: "endswith (g @ ''/'') ''/''"
  by (simp add: endswith_def)

lemma filter_list_set:
  "set (filter_list gas) = (\<lambda>g. if endswith g ''/'' then g else g @ ''/'') ` {g \<in> set gas. g \<noteq> []}"
  by (induction gas) auto

lemma filter_list_slash: "f \<in> set (filter_list gas) \<Longrightarrow> endswith f ''/''"
  by (auto simp: filter_list_set endswith_slash)

lemma list_ex_prefix:
  "list_ex (startswith ga) fl \<longleftrightarrow> (\<exists>f\<in>set fl. \<exists>rest. ga = f @ rest)"
  by (simp add: list_ex_iff startswith_iff)

text \<open>
  Claim C7. For a data frame with a decoded group address \<open>ga\<close>, the telegram goes to the
  filtered stream when some entry of the normalised filter list is a prefix of the string
  \<open>ga\<close>, and to the other stream when none is. Every entry of the normalised list ends with
  a slash: it is a non-empty argument, with a slash appended unless it has one. The filter
  \<open>1/2/\<close> matches \<open>1/2/5\<close> and does not match \<open>1/20/5\<close>.
\<close>
theorem filter_prefix_routing:
  assumes "get_rawdata t \<noteq> []" "\<not> is_ack (get_rawdata t)"
    "extract_group_address (get_rawdata t) = ga" "ga \<noteq> ''IGNORE''" "ga \<noteq> []"
  shows "((\<exists>f\<in>set (filter_list gas). \<exists>rest. ga = f @ rest) \<longrightarrow>
            split_step (filter_list gas) st t =
              st\<lparr> filtered_telegrams := filtered_telegrams st @ [t],
                  filtered_comments := filtered_comments st @
                    [''<!-- GA: '' @ ga @ '' ; QA: '' @ get_physical_address (get_rawdata t) @ '' -->''],
                  last_effective_ga := Some ga,
                  last_destination := Some Filtered \<rparr>) \<and>
         (\<not> (\<exists>f\<in>set (filter_list gas). \<exists>rest. ga = f @ rest) \<longrightarrow>
            split_step (filter_list gas) st t =
              st\<lparr> other_telegrams := other_telegrams st @ [t],
                  other_comments := other_comments st @
                    [''<!-- GA: '' @ ga @ '' ; QA: '' @ get_physical_address (get_rawdata t) @ '' -->''],
                  last_effective_ga := Some ga,
                  last_destination := Some Other \<rparr>) \<and>
         (\<forall>f\<in>set (filter_list gas). endswith f ''/'') \<and>
         set (filter_list gas) = (\<lambda>g. if endswith g ''/'' then g else g @ ''/'') ` {g \<in> set gas. g \<noteq> []} \<and>
         startswith ''1/2/5'' ''1/2/'' \<and> \<not> startswith ''1/20/5'' ''1/2/''"
proof -
  have g: "extract_group_address (get_rawdata t) \<noteq> ''IGNORE''" "extract_group_address (get_rawdata t) \<noteq> []"
    using assms(3,4,5) by simp_all
  have 1: "(\<exists>f\<in>set (filter_list gas). \<exists>rest. ga = f @ rest) \<Longrightarrow>
            split_step (filter_list gas) st t =
              st\<lparr> filtered_telegrams := filtered_telegrams st @ [t],
                  filtered_comments := filtered_comments st @
                    [''<!-- GA: '' @ ga @ '' ; QA: '' @ get_physical_address (get_rawdata t) @ '' -->''],
                  last_effective_ga := Some ga,
                  last_destination := Some Filtered \<rparr>"
  proof -
    assume "\<exists>f\<in>set (filter_list gas). \<exists>rest. ga = f @ rest"
    then have "list_ex (startswith (extract_group_address (get_rawdata t))) (filter_list gas)"
      by (simp only: list_ex_prefix assms(3))
    from split_step_match [OF assms(1,2) g this, of st] show ?thesis
      by (simp add: ga_comment_def assms(3))
  qed
  have 2: "\<not> (\<exists>f\<in>set (filter_list gas). \<exists>rest. ga = f @ rest) \<Longrightarrow>
            split_step (filter_list gas) st t =
              st\<lparr> other_telegrams := other_telegrams st @ [t],
                  other_comments := other_comments st @
                    [''<!-- GA: '' @ ga @ '' ; QA: '' @ get_physical_address (get_rawdata t) @ '' -->''],
                  last_effective_ga := Some ga,
                  last_destination := Some Other \<rparr>"
  proof -
    assume "\<not> (\<exists>f\<in>set (filter_list gas). \<exists>rest. ga = f @ rest)"
    then have "\<not> list_ex (startswith (extract_group_address (get_rawdata t))) (filter_list gas)"
      by (simp only: list_ex_prefix assms(3) not_False_eq_True)
    from split_step_nomatch [OF assms(1,2) g this, of st] show ?thesis
      by (simp add: ga_comment_def assms(3))
  qed
  have 3: "\<forall>f\<in>set (filter_list gas). endswith f ''/''"
    using filter_list_slash by blast
  have 4: "startswith ''1/2/5'' ''1/2/''" "\<not> startswith ''1/20/5'' ''1/2/''"
    by (simp_all add: startswith_def)
  from 1 2 3 4 filter_list_set [of gas] show ?thesis by blast
qed

text \<open>C1 on a log of six telegrams, one of them without a raw frame.\<close>
theorem split_loop_partition_witness:
  "(\<exists>A B. A \<inter> B = {} \<and>
     A \<union> B = {i. i < length example_log \<and> get_rawdata (example_log ! i) \<noteq> []} \<and>
     filtered_telegrams (split_loop (filter_list [''0/7'']) example_log) = nths example_log A \<and>
     other_telegrams (split_loop (filter_list [''0/7'']) example_log) = nths example_log B \<and>
     nths example_log (A \<union> B) = filter (\<lambda>t. get_rawdata t \<noteq> []) example_log) \<and>
   filtered_telegrams (split_loop (filter_list [''0/7'']) example_log) = [frame_ack, frame_075, frame_short] \<and>
   other_telegrams (split_loop (filter_list [''0/7'']) example_log) = [frame_235, frame_ack]"
proof -
  have "filtered_telegrams (split_loop (filter_list [''0/7'']) example_log) = [frame_ack, frame_075, frame_short]"
    by code_simp
  moreover have "other_telegrams (split_loop (filter_list [''0/7'']) example_log) = [frame_235, frame_ack]"
    by code_simp
  ultimately show ?thesis
    using split_loop_partition [of example_log "filter_list [''0/7'']"] by blast
qed

text \<open>C2: an acknowledgement of 24 characters after a telegram routed to the other stream, and an acknowledgement that comes first.\<close>
theorem ack_follows_last_routed_frame_witness:
  "is_ack (get_rawdata frame_ack) \<and>
   other_telegrams (split_step (filter_list [''0/7'']) (split_loop (filter_list [''0/7'']) []) frame_235) =
     other_telegrams (split_loop (filter_list [''0/7'']) []) @ [frame_235] \<and>
   split_step (filter_list [''0/7'']) (split_loop (filter_list [''0/7'']) [frame_235]) frame_ack =
     (split_loop (filter_list [''0/7'']) [frame_235])
       \<lparr> other_telegrams := other_telegrams (split_loop (filter_list [''0/7'']) [frame_235]) @ [frame_ack],
         other_comments := other_comments (split_loop (filter_list [''0/7'']) [frame_235]) @ [[]] \<rparr> \<and>
   split_step (filter_list [''0/7'']) (split_loop (filter_list [''0/7'']) []) frame_ack =
     (split_loop (filter_list [''0/7'']) [])
       \<lparr> filtered_telegrams := filtered_telegrams (split_loop (filter_list [''0/7'']) []) @ [frame_ack],
         filtered_comments := filtered_comments (split_loop (filter_list [''0/7'']) []) @ [[]] \<rparr>"
proof -
  have a: "is_ack (get_rawdata frame_ack)" by code_simp
  have d: "get_rawdata frame_235 \<noteq> []" "\<not> is_ack (get_rawdata frame_235)" by code_simp+
  have o: "other_telegrams (split_step (filter_list [''0/7'']) (split_loop (filter_list [''0/7'']) []) frame_235) =
     other_telegrams (split_loop (filter_list [''0/7'']) []) @ [frame_235]" by code_simp
  have p: "[frame_235] = [] @ [frame_235] @ [] \<and> get_rawdata frame_235 \<noteq> [] \<and> \<not> is_ack (get_rawdata frame_235) \<and>
            list_all (\<lambda>x. get_rawdata x = [] \<or> is_ack (get_rawdata x)) []"
    using d by simp
  note T1 = ack_follows_last_routed_frame [OF a, of "[frame_235]" "filter_list [''0/7'']"]
  note T2 = ack_follows_last_routed_frame [OF a, of "[]" "filter_list [''0/7'']"]
  from T1 [THEN conjunct1, rule_format, OF p, THEN conjunct2] o
  have 1: "split_step (filter_list [''0/7'']) (split_loop (filter_list [''0/7'']) [frame_235]) frame_ack =
     (split_loop (filter_list [''0/7'']) [frame_235])
       \<lparr> other_telegrams := other_telegrams (split_loop (filter_list [''0/7'']) [frame_235]) @ [frame_ack],
         other_comments := other_comments (split_loop (filter_list [''0/7'']) [frame_235]) @ [[]] \<rparr>"
    by blast
  from T2 [THEN conjunct2, THEN conjunct1]
  have 2: "split_step (filter_list [''0/7'']) (split_loop (filter_list [''0/7'']) []) frame_ack =
     (split_loop (filter_list [''0/7'']) [])
       \<lparr> filtered_telegrams := filtered_telegrams (split_loop (filter_list [''0/7'']) []) @ [frame_ack],
         filtered_comments := filtered_comments (split_loop (filter_list [''0/7'']) []) @ [[]] \<rparr>"
    by simp
  from a o 1 2 show ?thesis by blast
qed

text \<open>C6 at a raw frame of 20 characters.\<close>
theorem undecodable_routed_to_filtered_witness:
  "get_rawdata frame_short \<noteq> [] \<and> \<not> is_ack (get_rawdata frame_short) \<and>
   length (get_rawdata frame_short) = 20 \<and>
   split_step (filter_list [''0/7'']) init_state frame_short =
     init_state\<lparr> filtered_telegrams := [frame_short],
                 filtered_comments := [''<!-- GA: IGNORE (unbestimmt) ; QA:  -->''],
                 last_destination := Some Filtered \<rparr>"
proof -
  have h: "get_rawdata frame_short \<noteq> []" "\<not> is_ack (get_rawdata frame_short)" by code_simp+
  have l: "length (get_rawdata frame_short) = 20" by code_simp
  from undecodable_routed_to_filtered [OF h, of "filter_list [''0/7'']" init_state, THEN conjunct2, rule_format, OF l]
  have "split_step (filter_list [''0/7'']) init_state frame_short =
     init_state\<lparr> filtered_telegrams := [frame_short],
                 filtered_comments := [''<!-- GA: IGNORE (unbestimmt) ; QA:  -->''],
                 last_destination := Some Filtered \<rparr>"
    by (simp add: init_state_def)
  with h l show ?thesis by blast
qed

text \<open>C7 with the filter \<open>1/1\<close>: the address \<open>1/1/5\<close> matches, \<open>1/10/5\<close> does not.\<close>
theorem filter_prefix_routing_witness:
  "extract_group_address (get_rawdata frame_115) = ''1/1/5'' \<and>
   extract_group_address (get_rawdata frame_1_10_5) = ''1/10/5'' \<and>
   filter_list [''1/1''] = [''1/1/''] \<and>
   split_step (filter_list [''1/1'']) init_state frame_115 =
     init_state\<lparr> filtered_telegrams := [frame_115],
                 filtered_comments := [''<!-- GA: 1/1/5 ; QA: 10.10.187 -->''],
                 last_effective_ga := Some ''1/1/5'',
                 last_destination := Some Filtered \<rparr> \<and>
   split_step (filter_list [''1/1'']) init_state frame_1_10_5 =
     init_state\<lparr> other_telegrams := [frame_1_10_5],
                 other_comments := [''<!-- GA: 1/10/5 ; QA: 10.10.187 -->''],
                 last_effective_ga := Some ''1/10/5'',
                 last_destination := Some Other \<rparr>"
proof -
  have a: "get_rawdata frame_115 \<noteq> []" "\<not> is_ack (get_rawdata frame_115)"
    "extract_group_address (get_rawdata frame_115) = ''1/1/5''" by code_simp+
  have b: "get_rawdata frame_1_10_5 \<noteq> []" "\<not> is_ack (get_rawdata frame_1_10_5)"
    "extract_group_address (get_rawdata frame_1_10_5) = ''1/10/5''" by code_simp+
  have pa: "get_physical_address (get_rawdata frame_115) = ''10.10.187''"
    "get_physical_address (get_rawdata frame_1_10_5) = ''10.10.187''" by code_simp+
  have fl: "filter_list [''1/1''] = [''1/1/'']" by code_simp
  have m: "\<exists>f\<in>set (filter_list [''1/1'']). \<exists>rest. ''1/1/5'' = f @ rest"
    unfolding fl by simp
  have n: "\<not> (\<exists>f\<in>set (filter_list [''1/1'']). \<exists>rest. ''1/10/5'' = f @ rest)"
    unfolding fl by simp
  from filter_prefix_routing [OF a, of "[''1/1'']" init_state, THEN conjunct1, rule_format, OF _ _ m]
  have 1: "split_step (filter_list [''1/1'']) init_state frame_115 =
     init_state\<lparr> filtered_telegrams := [frame_115],
                 filtered_comments := [''<!-- GA: 1/1/5 ; QA: 10.10.187 -->''],
                 last_effective_ga := Some ''1/1/5'',
                 last_destination := Some Filtered \<rparr>"
    by (simp add: init_state_def pa)
  from filter_prefix_routing [OF b, of "[''1/1'']" init_state, THEN conjunct2, THEN conjunct1, rule_format, OF _ _ n]
  have 2: "split_step (filter_list [''1/1'']) init_state frame_1_10_5 =
     init_state\<lparr> other_telegrams := [frame_1_10_5],
                 other_comments := [''<!-- GA: 1/10/5 ; QA: 10.10.187 -->''],
                 last_effective_ga := Some ''1/10/5'',
                 last_destination := Some Other \<rparr>"
    by (simp add: init_state_def pa)
  from a(3) b(3) fl 1 2 show ?thesis by blast
qed

section \<open>Properties of the rendering pass\<close>

subsection \<open>replace, split and strip on a comment\<close>

lemma replace_aux_skip:
  "length xs = k \<Longrightarrow> replace_aux old new k (xs @ rest) = replace_aux old new 0 rest"
proof (induction xs arbitrary: k)
  case Nil
  then show ?case by simp
next
  case (Cons x xs)
  then obtain j where "k = Suc j" "length xs = j" by (cases k) auto
  with Cons.IH show ?case by simp
qed

lemma replace_aux_absent:
  "old = c # cs \<Longrightarrow> c \<notin> set s \<Longrightarrow> replace_aux old new 0 s = s"
  by (induction s) (auto simp: startswith_def)

lemma replace_prefix:
  assumes "old = c # cs" "c \<notin> set rest"
  shows "replace old new (old @ rest) = new @ rest"
proof -
  have "replace_aux old new 0 (c # (cs @ rest)) = new @ replace_aux old new (length cs) (cs @ rest)"
    using assms(1) by (simp add: startswith_def)
  also have "replace_aux old new (length cs) (cs @ rest) = replace_aux old new 0 rest"
    by (rule replace_aux_skip) simp
  also have "\<dots> = rest" using assms by (rule replace_aux_absent)
  finally show ?thesis using assms(1) by (simp add: replace_def)
qed

lemma replace_char:
  "replace [a] [b] s = map (\<lambda>c. if c = a then b else c) s"
  unfolding replace_def by (induction s) (auto simp: startswith_def)

lemma split_aux_absent:
  "c \<notin> set s \<Longrightarrow> split_aux [c] acc 0 s = [rev acc @ s]"
  by (induction s arbitrary: acc) (auto simp: startswith_def)

lemma split_aux_first:
  "c \<notin> set a \<Longrightarrow> split_aux [c] acc 0 (a @ c # b) = (rev acc @ a) # split_aux [c] [] 0 b"
  by (induction a arbitrary: acc) (auto simp: startswith_def)

lemma split_two:
  assumes "c \<notin> set a" "c \<notin> set b"
  shows "split [c] (a @ c # b) = [a, b]"
  using split_aux_first [OF assms(1), of "[]" b] split_aux_absent [OF assms(2), of "[]"]
  by (simp add: split_def)

lemma split_aux_nonempty: "split_aux sep acc k s \<noteq> []"
  by (induction sep acc k s rule: split_aux.induct) auto

lemma split_aux_prefix:
  "split_aux sep acc 0 s = p # ps \<Longrightarrow> \<exists>r. rev acc @ s = p @ r"
proof (induction s arbitrary: acc)
  case Nil
  then show ?case by simp
next
  case (Cons c cs)
  show ?case
  proof (cases "startswith (c # cs) sep")
    case True
    with Cons.prems have "p = rev acc" by simp
    then show ?thesis by blast
  next
    case False
    with Cons.prems have "split_aux sep (c # acc) 0 cs = p # ps" by simp
    from Cons.IH [OF this] show ?thesis by simp
  qed
qed

lemma split_prefix: "split sep s = p # ps \<Longrightarrow> \<exists>r. s = p @ r"
  using split_aux_prefix [of sep "[]" s p ps] by (simp add: split_def)

lemma space_is_space: "py_isspace CHR '' ''"
  by (simp add: py_isspace_def)

lemma strip_ga:
  assumes "g \<noteq> []" "\<not> py_isspace (last g)"
  shows "strip (''GA: '' @ g @ '' '') = ''GA: '' @ g"
proof -
  have "rev g \<noteq> []" "\<not> py_isspace (hd (rev g))"
    using assms by (simp_all add: hd_rev)
  then have "dropWhile py_isspace (rev g @ rev ''GA: '') = rev g @ rev ''GA: ''"
    by (cases "rev g") simp_all
  then have "rstrip (''GA: '' @ g @ '' '') = ''GA: '' @ g"
    by (simp add: rstrip_def space_is_space)
  then show ?thesis by (simp add: strip_def lstrip_def py_isspace_def)
qed

lemma strip_qa: "strip ('' QA: '' @ p @ '' -->'') = ''QA: '' @ p @ '' -->''"
  by (simp add: strip_def lstrip_def rstrip_def py_isspace_def)

lemma comment_replace:
  assumes "annotation_field g" "annotation_field p"
  shows "replace ''<!-- '' [] (ga_comment g p) = ''GA: '' @ g @ '' ; QA: '' @ p @ '' -->''"
proof -
  have "CHR ''<'' \<notin> set (''GA: '' @ g @ '' ; QA: '' @ p @ '' -->'')"
    using assms by (simp add: annotation_field_def)
  from replace_prefix [OF refl this, of "''!-- ''" "[]"] show ?thesis
    by (simp add: ga_comment_def)
qed

lemma comment_split:
  assumes "annotation_field g" "annotation_field p"
  shows "split '';'' (''GA: '' @ g @ '' ; QA: '' @ p @ '' -->'') = [''GA: '' @ g @ '' '', '' QA: '' @ p @ '' -->'']"
proof -
  have a: "CHR '';'' \<notin> set (''GA: '' @ g @ '' '')" using assms by (simp add: annotation_field_def)
  have b: "CHR '';'' \<notin> set ('' QA: '' @ p @ '' -->'')" using assms by (simp add: annotation_field_def)
  from split_two [OF a b] show ?thesis by simp
qed

lemma annotate_ga_comment:
  assumes "g \<noteq> []" "\<not> py_isspace (last g)" "annotation_field g" "annotation_field p"
  shows "annotate tp0 (ga_comment g p) =
     Inr (''    '' @ tp0 @ replicate (161 - length tp0) CHR '' '' @
          (if max (length tp0) 161 + length g < 170
           then ''<!-- '' @ ''GA: '' @ g @ replicate (170 - max (length tp0) 161 - length g) CHR '' '' @
                ''; '' @ ''QA: '' @ p @ '' -->''
           else ''GA: '' @ g @ '' ; QA: '' @ p @ '' -->'') @ [CHR 0x0A])"
proof -
  define tp where "tp = (if 165 - (int (length tp0) + 4) > 0
      then tp0 @ replicate (nat (165 - (int (length tp0) + 4))) CHR '' '' else tp0)"
  have tp: "tp = tp0 @ replicate (161 - length tp0) CHR '' ''"
  proof (cases "length tp0 < 161")
    case True
    then have "nat (165 - (int (length tp0) + 4)) = 161 - length tp0" by simp
    with True show ?thesis by (simp add: tp_def)
  next
    case False
    then show ?thesis by (simp add: tp_def)
  qed
  have ltp: "length tp = max (length tp0) 161" unfolding tp by simp
  have gl: "length (strip (''GA: '' @ g @ '' '')) = 4 + length g"
    unfolding strip_ga [OF assms(1,2)] by simp
  have pad: "183 - (int (length tp) + 4 + 5 + int (4 + length g)) > 0 \<longleftrightarrow> length tp + length g < 170"
    by linarith
  have padn: "nat (183 - (int (length tp) + 4 + 5 + int (4 + length g))) = 170 - length tp - length g"
    by linarith
  have "annotate tp0 (ga_comment g p) =
     Inr (''    '' @ tp @
          (if length tp + length g < 170
           then ''<!-- '' @ (''GA: '' @ g @ replicate (170 - length tp - length g) CHR '' '') @
                ''; '' @ ''QA: '' @ p @ '' -->''
           else ''GA: '' @ g @ '' ; QA: '' @ p @ '' -->'') @ [CHR 0x0A])"
    unfolding annotate_def Let_def tp_def [symmetric]
      comment_replace [OF assms(3,4)] comment_split [OF assms(3,4)]
      list.case strip_ga [OF assms(1,2)] strip_qa
    using pad padn by simp
  then show ?thesis unfolding ltp unfolding tp by simp
qed

subsection \<open>One telegram line\<close>

lemma lstrip_head: "lstrip s = [] \<or> \<not> py_isspace (hd (lstrip s))"
  unfolding lstrip_def by (metis hd_dropWhile)

lemma endswith_append: "endswith (a @ b) b"
  by (simp add: endswith_def)

lemma telegram_part_head:
  assumes \<open>split ''RawData="'' (lstrip line0) = [p0, p1]\<close>
    and \<open>tp0 = p0 @ ''RawData="'' @ rd @ ''" />''\<close>
  shows "tp0 \<noteq> [] \<and> \<not> py_isspace (hd tp0) \<and> endswith tp0 ''\" />''"
proof -
  from split_prefix [OF assms(1)] obtain r where r: "lstrip line0 = p0 @ r" by blast
  have "endswith ((p0 @ ''RawData=\"'' @ rd) @ ''\" />'') ''\" />''" by (rule endswith_append)
  then have e: "endswith tp0 ''\" />''" unfolding assms(2) by simp
  show ?thesis
  proof (cases p0)
    case Nil
    then show ?thesis using e unfolding assms(2) by (simp add: py_isspace_def)
  next
    case (Cons c cs)
    with r lstrip_head [of line0] have "\<not> py_isspace c" by auto
    with Cons e show ?thesis unfolding assms(2) by simp
  qed
qed

lemma ga_comment_nonempty: "ga_comment g p \<noteq> []"
  by (simp add: ga_comment_def)

lemma rewrite_line_annotated:
  assumes "contains ''<Telegram'' line0" "contains ''</Telegram>'' line0"
    and \<open>split ''RawData="'' (lstrip line0) = [p0, p1]\<close>
    and \<open>tp0 = p0 @ ''RawData="'' @ first_part (split ''"'' p1) @ ''" />''\<close>
    and "idx < length comments" "comments ! idx = ga_comment g p"
    and "g \<noteq> []" "\<not> py_isspace (last g)" "annotation_field g" "annotation_field p"
  shows "rewrite_line comments idx line0 =
     Inr (''    '' @ tp0 @ replicate (161 - length tp0) CHR '' '' @
          (if max (length tp0) 161 + length g < 170
           then ''<!-- '' @ ''GA: '' @ g @ replicate (170 - max (length tp0) 161 - length g) CHR '' '' @
                ''; '' @ ''QA: '' @ p @ '' -->''
           else ''GA: '' @ g @ '' ; QA: '' @ p @ '' -->'') @ [CHR 0x0A], idx + 1)"
proof -
  have \<open>rewrite_line comments idx line0 =
     (case annotate (p0 @ ''RawData="'' @ first_part (split ''"'' p1) @ ''" />'') (comments ! idx) of
        Inl e \<Rightarrow> Inl e | Inr l \<Rightarrow> Inr (l, idx + 1))\<close>
    unfolding rewrite_line_def Let_def
    using assms(1,2,5) ga_comment_nonempty [of g p] by (simp add: assms(3) assms(6))
  then have "rewrite_line comments idx line0 =
     (case annotate tp0 (comments ! idx) of Inl e \<Rightarrow> Inl e | Inr l \<Rightarrow> Inr (l, idx + 1))"
    by (simp only: assms(4))
  then show ?thesis
    by (simp only: assms(6) annotate_ga_comment [OF assms(7-10)] sum.case)
qed

lemma rewrite_line_plain:
  assumes "contains ''<Telegram'' line0" "contains ''</Telegram>'' line0"
    and \<open>split ''RawData="'' (lstrip line0) = [p0, p1]\<close>
    and \<open>tp0 = p0 @ ''RawData="'' @ first_part (split ''"'' p1) @ ''" />''\<close>
    and "\<not> (idx < length comments \<and> comments ! idx \<noteq> [])"
  shows "rewrite_line comments idx line0 = Inr (''    '' @ tp0 @ [CHR 0x0A], idx + 1)"
  unfolding rewrite_line_def Let_def assms(4)
  using assms(1,2,5) by (auto simp add: assms(3))

lemma nth_at_length: "length pre = n \<Longrightarrow> (pre @ c # rest) ! n = c"
  by auto

text \<open>
  Claim C8, as the code has it. A telegram line (it contains \<open><Telegram\<close> and
  \<open></Telegram>\<close>, and \<open>RawData="\<close> exactly once) becomes four spaces followed by the
  self-closing telegram part, which starts with no white space and ends in \<open>" />\<close>. With an
  empty annotation nothing follows but the line end. With an annotation
  \<open>ga_comment g p\<close> the telegram part is padded with spaces to 161 characters, so with the
  indent the annotation suffix starts at offset 165 counted from 0, which is column 166
  counted from 1; a telegram part of 161 characters or more gets no padding and is emitted
  whole. When the semicolon position computed by the code is below 183, the suffix is the
  comment with spaces after the group-address field, and the semicolon stands at offset 183
  counted from 0, which is column 184 counted from 1. What the suffix is when no such
  spaces are inserted is left to C10.
\<close>
theorem rewrite_line_alignment:
  assumes "contains ''<Telegram'' line0" "contains ''</Telegram>'' line0"
    and \<open>split ''RawData="'' (lstrip line0) = [p0, p1]\<close>
    and \<open>tp0 = p0 @ ''RawData="'' @ first_part (split ''"'' p1) @ ''" />''\<close>
  shows \<open>tp0 \<noteq> [] \<and> \<not> py_isspace (hd tp0) \<and> endswith tp0 ''" />'' \<and>
    (\<not> (idx < length comments \<and> comments ! idx \<noteq> []) \<longrightarrow>
       rewrite_line comments idx line0 = Inr (''    '' @ tp0 @ [CHR 0x0A], idx + 1)) \<and>
    (idx < length comments \<and> comments ! idx = ga_comment g p \<and>
     g \<noteq> [] \<and> \<not> py_isspace (last g) \<and> annotation_field g \<and> annotation_field p \<longrightarrow>
       (\<exists>suffix.
          rewrite_line comments idx line0 =
            Inr (''    '' @ tp0 @ replicate (161 - length tp0) CHR '' '' @ suffix @ [CHR 0x0A], idx + 1) \<and>
          (length tp0 \<le> 161 \<longrightarrow> length (''    '' @ tp0 @ replicate (161 - length tp0) CHR '' '') = 165) \<and>
          (161 \<le> length tp0 \<longrightarrow>
             rewrite_line comments idx line0 = Inr (''    '' @ tp0 @ suffix @ [CHR 0x0A], idx + 1)) \<and>
          (max (length tp0) 161 + length g < 170 \<longrightarrow>
             suffix = ''<!-- GA: '' @ g @ replicate (170 - max (length tp0) 161 - length g) CHR '' '' @
                      ''; QA: '' @ p @ '' -->'' \<and>
             (''    '' @ tp0 @ replicate (161 - length tp0) CHR '' '' @ suffix @ [CHR 0x0A]) ! 183 = CHR '';'')))\<close>
proof (intro conjI impI)
  from telegram_part_head [OF assms(3,4)]
  show "tp0 \<noteq> []" "\<not> py_isspace (hd tp0)" \<open>endswith tp0 ''" />''\<close> by simp_all
next
  assume "\<not> (idx < length comments \<and> comments ! idx \<noteq> [])"
  with assms show "rewrite_line comments idx line0 = Inr (''    '' @ tp0 @ [CHR 0x0A], idx + 1)"
    by (rule rewrite_line_plain)
next
  assume h: "idx < length comments \<and> comments ! idx = ga_comment g p \<and>
     g \<noteq> [] \<and> \<not> py_isspace (last g) \<and> annotation_field g \<and> annotation_field p"
  define suffix where "suffix =
          (if max (length tp0) 161 + length g < 170
           then ''<!-- '' @ ''GA: '' @ g @ replicate (170 - max (length tp0) 161 - length g) CHR '' '' @
                ''; '' @ ''QA: '' @ p @ '' -->''
           else ''GA: '' @ g @ '' ; QA: '' @ p @ '' -->'')"
  from h have r: "rewrite_line comments idx line0 =
            Inr (''    '' @ tp0 @ replicate (161 - length tp0) CHR '' '' @ suffix @ [CHR 0x0A], idx + 1)"
    unfolding suffix_def by (intro rewrite_line_annotated [OF assms]) simp_all
  have l: "length tp0 \<le> 161 \<longrightarrow> length (''    '' @ tp0 @ replicate (161 - length tp0) CHR '' '') = 165"
    by simp
  have n: "161 \<le> length tp0 \<longrightarrow>
             rewrite_line comments idx line0 = Inr (''    '' @ tp0 @ suffix @ [CHR 0x0A], idx + 1)"
    using r by simp
  have s: "max (length tp0) 161 + length g < 170 \<longrightarrow>
             suffix = ''<!-- GA: '' @ g @ replicate (170 - max (length tp0) 161 - length g) CHR '' '' @
                      ''; QA: '' @ p @ '' -->'' \<and>
             (''    '' @ tp0 @ replicate (161 - length tp0) CHR '' '' @ suffix @ [CHR 0x0A]) ! 183 = CHR '';''"
  proof
    assume c: "max (length tp0) 161 + length g < 170"
    then have e: "suffix = ''<!-- GA: '' @ g @ replicate (170 - max (length tp0) 161 - length g) CHR '' '' @
                      ''; QA: '' @ p @ '' -->''" by (simp add: suffix_def)
    define pre where "pre = ''    '' @ tp0 @ replicate (161 - length tp0) CHR '' '' @
        ''<!-- GA: '' @ g @ replicate (170 - max (length tp0) 161 - length g) CHR '' ''"
    have "length pre = 183" using c unfolding pre_def by auto
    then have A: "(pre @ CHR '';'' # ('' QA: '' @ p @ '' -->'' @ [CHR 0x0A])) ! 183 = CHR '';''"
      by (rule nth_at_length)
    have B: "''    '' @ tp0 @ replicate (161 - length tp0) CHR '' '' @ suffix @ [CHR 0x0A] =
        pre @ CHR '';'' # ('' QA: '' @ p @ '' -->'' @ [CHR 0x0A])"
      unfolding e pre_def by simp
    from A have "(''    '' @ tp0 @ replicate (161 - length tp0) CHR '' '' @ suffix @ [CHR 0x0A]) ! 183 = CHR '';''"
      by (simp only: B)
    then show "suffix = ''<!-- GA: '' @ g @ replicate (170 - max (length tp0) 161 - length g) CHR '' '' @
                      ''; QA: '' @ p @ '' -->'' \<and>
             (''    '' @ tp0 @ replicate (161 - length tp0) CHR '' '' @ suffix @ [CHR 0x0A]) ! 183 = CHR '';''"
      using e by (intro conjI)
  qed
  from r l n s show "\<exists>suffix.
          rewrite_line comments idx line0 =
            Inr (''    '' @ tp0 @ replicate (161 - length tp0) CHR '' '' @ suffix @ [CHR 0x0A], idx + 1) \<and>
          (length tp0 \<le> 161 \<longrightarrow> length (''    '' @ tp0 @ replicate (161 - length tp0) CHR '' '') = 165) \<and>
          (161 \<le> length tp0 \<longrightarrow>
             rewrite_line comments idx line0 = Inr (''    '' @ tp0 @ suffix @ [CHR 0x0A], idx + 1)) \<and>
          (max (length tp0) 161 + length g < 170 \<longrightarrow>
             suffix = ''<!-- GA: '' @ g @ replicate (170 - max (length tp0) 161 - length g) CHR '' '' @
                      ''; QA: '' @ p @ '' -->'' \<and>
             (''    '' @ tp0 @ replicate (161 - length tp0) CHR '' '' @ suffix @ [CHR 0x0A]) ! 183 = CHR '';'')"
    by blast
qed

text \<open>
  C8 as the specification words it fails on the columns: counted from 1 and with the
  indent, column 165 (offset 164) of the rendered example line is a space and the opening
  token starts at column 166; column 183 (offset 182) is a space and the semicolon stands
  at column 184.
\<close>
theorem rewrite_line_column_counterexample:
  "rewrite_line [''<!-- GA: 2/3/5 ; QA: 10.10.187 -->''] 0 example_line = Inr (example_rendered, 1) \<and>
   example_rendered ! 164 = CHR '' '' \<and> take 5 (drop 164 example_rendered) \<noteq> ''<!-- '' \<and>
   take 5 (drop 165 example_rendered) = ''<!-- '' \<and>
   example_rendered ! 182 = CHR '' '' \<and> example_rendered ! 183 = CHR '';''"
  by code_simp

lemma contains_absent: "c \<notin> set s \<Longrightarrow> \<not> contains (c # cs) s"
  by (induction s) (auto simp: startswith_def)

text \<open>
  Claim C10. When the semicolon position computed for a line is 183 or more, no spaces are
  inserted and the emitted suffix is the comment without its opener \<open><!-- \<close>; the suffix
  then contains no opener at all, so it is not an XML comment. When the position is below
  183 the suffix is rebuilt with the opener. The annotation of an undecodable frame,
  \<open>IGNORE (unbestimmt)\<close>, always falls under the first case.
\<close>
theorem opener_lost_without_padding:
  assumes "contains ''<Telegram'' line0" "contains ''</Telegram>'' line0"
    and \<open>split ''RawData="'' (lstrip line0) = [p0, p1]\<close>
    and \<open>tp0 = p0 @ ''RawData="'' @ first_part (split ''"'' p1) @ ''" />''\<close>
    and "idx < length comments" "comments ! idx = ga_comment g p"
    and "g \<noteq> []" "\<not> py_isspace (last g)" "annotation_field g" "annotation_field p"
  shows "(183 \<le> (max (length tp0) 161 + 4) + 5 + (4 + length g) \<longrightarrow>
            rewrite_line comments idx line0 =
              Inr (''    '' @ tp0 @ replicate (161 - length tp0) CHR '' '' @
                   ''GA: '' @ g @ '' ; QA: '' @ p @ '' -->'' @ [CHR 0x0A], idx + 1) \<and>
            \<not> contains ''<!-- '' (''GA: '' @ g @ '' ; QA: '' @ p @ '' -->'')) \<and>
         ((max (length tp0) 161 + 4) + 5 + (4 + length g) < 183 \<longrightarrow>
            rewrite_line comments idx line0 =
              Inr (''    '' @ tp0 @ replicate (161 - length tp0) CHR '' '' @
                   ''<!-- '' @ ''GA: '' @ g @ replicate (170 - max (length tp0) 161 - length g) CHR '' '' @
                   ''; '' @ ''QA: '' @ p @ '' -->'' @ [CHR 0x0A], idx + 1)) \<and>
         (g = ''IGNORE (unbestimmt)'' \<longrightarrow> 183 \<le> (max (length tp0) 161 + 4) + 5 + (4 + length g))"
proof (intro conjI impI)
  assume "183 \<le> (max (length tp0) 161 + 4) + 5 + (4 + length g)"
  then have "\<not> max (length tp0) 161 + length g < 170" by simp
  with rewrite_line_annotated [OF assms]
  show "rewrite_line comments idx line0 =
              Inr (''    '' @ tp0 @ replicate (161 - length tp0) CHR '' '' @
                   ''GA: '' @ g @ '' ; QA: '' @ p @ '' -->'' @ [CHR 0x0A], idx + 1)"
    by simp
next
  have "CHR ''<'' \<notin> set (''GA: '' @ g @ '' ; QA: '' @ p @ '' -->'')"
    using assms(9,10) by (simp add: annotation_field_def)
  then show "\<not> contains ''<!-- '' (''GA: '' @ g @ '' ; QA: '' @ p @ '' -->'')"
    by (rule contains_absent)
next
  assume "(max (length tp0) 161 + 4) + 5 + (4 + length g) < 183"
  then have "max (length tp0) 161 + length g < 170" by simp
  with rewrite_line_annotated [OF assms]
  show "rewrite_line comments idx line0 =
              Inr (''    '' @ tp0 @ replicate (161 - length tp0) CHR '' '' @
                   ''<!-- '' @ ''GA: '' @ g @ replicate (170 - max (length tp0) 161 - length g) CHR '' '' @
                   ''; '' @ ''QA: '' @ p @ '' -->'' @ [CHR 0x0A], idx + 1)"
    by simp
next
  assume "g = ''IGNORE (unbestimmt)''"
  then show "183 \<le> (max (length tp0) 161 + 4) + 5 + (4 + length g)" by simp
qed

text \<open>C10 at the line of a frame of 20 characters with its \<open>IGNORE\<close> annotation.\<close>
theorem opener_lost_without_padding_witness:
  \<open>rewrite_line [''<!-- GA: IGNORE (unbestimmt) ; QA:  -->''] 0 example_short_line =
     Inr (''    <Telegram RawData="00000000000000000000" />'' @ replicate 118 CHR '' '' @
          ''GA: IGNORE (unbestimmt) ; QA:  -->'' @ [CHR 0x0A], 1) \<and>
   \<not> contains ''<!-- '' (''GA: IGNORE (unbestimmt) ; QA:  -->'')\<close>
proof -
  have h: "contains ''<Telegram'' example_short_line" "contains ''</Telegram>'' example_short_line"
    \<open>split ''RawData="'' (lstrip example_short_line) = [''<Telegram '', ''00000000000000000000"></Telegram>'' @ [CHR 0x0A]]\<close>
    \<open>''<Telegram RawData="00000000000000000000" />'' =
       ''<Telegram '' @ ''RawData="'' @ first_part (split ''"'' (''00000000000000000000"></Telegram>'' @ [CHR 0x0A])) @ ''" />''\<close>
    by code_simp+
  have c: "0 < length [''<!-- GA: IGNORE (unbestimmt) ; QA:  -->'']"
    "[''<!-- GA: IGNORE (unbestimmt) ; QA:  -->''] ! 0 = ga_comment ''IGNORE (unbestimmt)'' []"
    "''IGNORE (unbestimmt)'' \<noteq> []" "\<not> py_isspace (last ''IGNORE (unbestimmt)'')"
    "annotation_field ''IGNORE (unbestimmt)''" "annotation_field []"
    by code_simp+
  have l: \<open>183 \<le> (max (length ''<Telegram RawData="00000000000000000000" />'') 161 + 4) + 5 +
      (4 + length ''IGNORE (unbestimmt)'')\<close> by simp
  from opener_lost_without_padding [OF h c, THEN conjunct1, rule_format, OF l]
  show ?thesis by simp
qed

text \<open>C8 at the example line, once with the annotation \<open>2/3/5\<close> and once with an empty one.\<close>
theorem rewrite_line_alignment_witness:
  "rewrite_line [''<!-- GA: 2/3/5 ; QA: 10.10.187 -->''] 0 example_line =
     Inr (''    '' @ ''<Telegram Timestamp=\"a\" RawData=\"0000000000000000000000BCAABB2305E100\" />'' @
          replicate 88 CHR '' '' @ ''<!-- GA: 2/3/5'' @ replicate 4 CHR '' '' @ ''; QA: 10.10.187 -->'' @
          [CHR 0x0A], 1) \<and>
   rewrite_line [[]] 0 example_line =
     Inr (''    '' @ ''<Telegram Timestamp=\"a\" RawData=\"0000000000000000000000BCAABB2305E100\" />'' @
          [CHR 0x0A], 1)"
proof -
  have h: "contains ''<Telegram'' example_line" "contains ''</Telegram>'' example_line"
    \<open>split ''RawData="'' (lstrip example_line) =
       [''<Telegram Timestamp="a" '', ''0000000000000000000000BCAABB2305E100"></Telegram>'' @ [CHR 0x0A]]\<close>
    \<open>''<Telegram Timestamp="a" RawData="0000000000000000000000BCAABB2305E100" />'' =
       ''<Telegram Timestamp="a" '' @ ''RawData="'' @
       first_part (split ''"'' (''0000000000000000000000BCAABB2305E100"></Telegram>'' @ [CHR 0x0A])) @ ''" />''\<close>
    by code_simp+
  have c: "0 < length [''<!-- GA: 2/3/5 ; QA: 10.10.187 -->''] \<and>
    [''<!-- GA: 2/3/5 ; QA: 10.10.187 -->''] ! 0 = ga_comment ''2/3/5'' ''10.10.187'' \<and>
    ''2/3/5'' \<noteq> [] \<and> \<not> py_isspace (last ''2/3/5'') \<and>
    annotation_field ''2/3/5'' \<and> annotation_field ''10.10.187''"
    by code_simp
  have e: "\<not> (0 < length [[] :: string] \<and> [[] :: string] ! 0 \<noteq> [])" by simp
  note T = rewrite_line_alignment [OF h]
  from T [of 0 "[''<!-- GA: 2/3/5 ; QA: 10.10.187 -->'']" "''2/3/5''" "''10.10.187''"] c
  obtain suffix where
    r: \<open>rewrite_line [''<!-- GA: 2/3/5 ; QA: 10.10.187 -->''] 0 example_line =
            Inr (''    '' @ ''<Telegram Timestamp="a" RawData="0000000000000000000000BCAABB2305E100" />'' @
                 replicate (161 - length ''<Telegram Timestamp="a" RawData="0000000000000000000000BCAABB2305E100" />'')
                   CHR '' '' @ suffix @ [CHR 0x0A], 0 + 1)\<close>
    and s: \<open>max (length ''<Telegram Timestamp="a" RawData="0000000000000000000000BCAABB2305E100" />'') 161 +
           length ''2/3/5'' < 170 \<longrightarrow>
         suffix = ''<!-- GA: '' @ ''2/3/5'' @
            replicate (170 - max (length ''<Telegram Timestamp="a" RawData="0000000000000000000000BCAABB2305E100" />'') 161 -
                       length ''2/3/5'') CHR '' '' @ ''; QA: '' @ ''10.10.187'' @ '' -->'' \<and>
         (''    '' @ ''<Telegram Timestamp="a" RawData="0000000000000000000000BCAABB2305E100" />'' @
          replicate (161 - length ''<Telegram Timestamp="a" RawData="0000000000000000000000BCAABB2305E100" />'')
            CHR '' '' @ suffix @ [CHR 0x0A]) ! 183 = CHR '';''\<close>
    by blast
  from s have "suffix = ''<!-- GA: 2/3/5'' @ replicate 4 CHR '' '' @ ''; QA: 10.10.187 -->''"
    by simp
  with r have 1: "rewrite_line [''<!-- GA: 2/3/5 ; QA: 10.10.187 -->''] 0 example_line =
     Inr (''    '' @ ''<Telegram Timestamp=\"a\" RawData=\"0000000000000000000000BCAABB2305E100\" />'' @
          replicate 88 CHR '' '' @ ''<!-- GA: 2/3/5'' @ replicate 4 CHR '' '' @ ''; QA: 10.10.187 -->'' @
          [CHR 0x0A], 1)"
    by simp
  from T [of 0 "[[]]", THEN conjunct2, THEN conjunct2, THEN conjunct2, THEN conjunct1, rule_format, OF e]
  have 2: "rewrite_line [[]] 0 example_line =
     Inr (''    '' @ ''<Telegram Timestamp=\"a\" RawData=\"0000000000000000000000BCAABB2305E100\" />'' @
          [CHR 0x0A], 1)"
    by simp
  from 1 2 show ?thesis by blast
qed

subsection \<open>The name of the filtered file\<close>

text \<open>
  Claim C9. The name of the filtered file is a function of the normalised filter list:
  in each entry every slash becomes an underscore and the underscores at both ends are
  stripped, the entries are joined with \<open>-\<close>, and the result stands between \<open>knx_tel_\<close> and
  \<open>.xml\<close>. With an empty normalised list the name is \<open>knx_tel_all.xml\<close>; the filters
  \<open>0/7/\<close> and \<open>1/2/\<close> give \<open>knx_tel_0_7-1_2.xml\<close>.
\<close>
theorem output_filename_shape:
  "output_filename gas =
     ''knx_tel_'' @
     (if filter_list gas = [] then ''all''
      else join ''-'' (map (\<lambda>ga. strip_char CHR ''_'' (map (\<lambda>c. if c = CHR ''/'' then CHR ''_'' else c) ga))
                          (filter_list gas))) @
     ''.xml'' \<and>
   (filter_list gas = [] \<longrightarrow> output_filename gas = ''knx_tel_all.xml'') \<and>
   output_filename [''0/7/'', ''1/2/''] = ''knx_tel_0_7-1_2.xml''"
proof -
  have r: "(\<lambda>ga. strip_char CHR ''_'' (replace ''/'' ''_'' ga)) =
      (\<lambda>ga. strip_char CHR ''_'' (map (\<lambda>c. if c = CHR ''/'' then CHR ''_'' else c) ga))"
    by (simp add: replace_char)
  have 1: "output_filename gas =
     ''knx_tel_'' @
     (if filter_list gas = [] then ''all''
      else join ''-'' (map (\<lambda>ga. strip_char CHR ''_'' (map (\<lambda>c. if c = CHR ''/'' then CHR ''_'' else c) ga))
                          (filter_list gas))) @
     ''.xml''"
    unfolding output_filename_def Let_def r by simp
  have 2: "filter_list gas = [] \<longrightarrow> output_filename gas = ''knx_tel_all.xml''"
    by (simp add: output_filename_def)
  have 3: "output_filename [''0/7/'', ''1/2/''] = ''knx_tel_0_7-1_2.xml''"
    by code_simp
  from 1 2 3 show ?thesis by blast
qed

text \<open>C9 at a list with only an empty entry, and at two filters that still need normalising.\<close>
theorem output_filename_shape_witness:
  "filter_list [[]] = [] \<and> output_filename [[]] = ''knx_tel_all.xml'' \<and>
   output_filename [''0/7'', ''/1/2''] = ''knx_tel_0_7-1_2.xml''"
proof -
  have f: "filter_list [[]] = []" by simp
  have g: "filter_list [''0/7'', ''/1/2''] = [''0/7/'', ''/1/2/'']" by code_simp
  from output_filename_shape [of "[[]]", THEN conjunct2, THEN conjunct1, rule_format, OF f]
  have 1: "output_filename [[]] = ''knx_tel_all.xml''" .
  from output_filename_shape [of "[''0/7'', ''/1/2'']", THEN conjunct1]
  have 2: "output_filename [''0/7'', ''/1/2''] = ''knx_tel_0_7-1_2.xml''"
    unfolding g by (simp add: strip_char_def)
  from f 1 2 show ?thesis by blast
qed

subsection \<open>The comments of the partition loop have the assumed shape\<close>

lemma digit_char_digit: "d < 10 \<Longrightarrow> digit_char d \<in> set ''0123456789''"
  unfolding digit_char_def by (rule nth_mem) simp

lemma digit_plain: "d < 10 \<Longrightarrow> plain_char (digit_char d)"
proof -
  assume "d < 10"
  then have "digit_char d \<in> set ''0123456789''" by (rule digit_char_digit)
  moreover have "list_all plain_char ''0123456789''"
    by (simp add: plain_char_def py_isspace_def)
  ultimately show ?thesis unfolding list_all_iff by blast
qed

lemma show_nat_plain: "show_nat n \<noteq> [] \<and> list_all plain_char (show_nat n)"
proof (induction n rule: show_nat.induct)
  case (1 n)
  show ?case
  proof (cases "n < 10")
    case True
    with digit_plain [of n] show ?thesis by (subst (1 2) show_nat.simps) simp
  next
    case False
    have "n mod 10 < 10" by simp
    from digit_plain [OF this] "1.IH" [OF False] False show ?thesis
      by (subst (1 2) show_nat.simps) simp
  qed
qed

lemma show_int_plain: "show_int i \<noteq> [] \<and> list_all plain_char (show_int i)"
proof -
  have "plain_char CHR ''-''" by (simp add: plain_char_def py_isspace_def)
  then show ?thesis
    using show_nat_plain [of "nat i"] show_nat_plain [of "nat (- i)"]
    by (simp add: show_int_def)
qed

lemma plain_field:
  assumes "list_all plain_char s" "s \<noteq> []"
  shows "annotation_field s \<and> \<not> py_isspace (last s)"
proof -
  from assms have "plain_char (last s)" by (simp add: list_all_iff)
  moreover have "CHR '';'' \<notin> set s" "CHR ''<'' \<notin> set s"
    using assms(1) by (auto simp: list_all_iff plain_char_def)
  ultimately show ?thesis by (simp add: annotation_field_def plain_char_def)
qed

lemma render_ga_plain: "render_ga h m u \<noteq> [] \<and> list_all plain_char (render_ga h m u)"
proof -
  have "plain_char CHR ''/''" by (simp add: plain_char_def py_isspace_def)
  then show ?thesis
    using show_int_plain [of h] show_int_plain [of m] show_int_plain [of u]
    by (simp add: render_ga_def)
qed

lemma render_pa_plain: "render_pa h l t \<noteq> [] \<and> list_all plain_char (render_pa h l t)"
proof -
  have "plain_char CHR ''.''" by (simp add: plain_char_def py_isspace_def)
  then show ?thesis
    using show_int_plain [of h] show_int_plain [of l] show_int_plain [of t]
    by (simp add: render_pa_def)
qed

lemma render_ga_field:
  "annotation_field (render_ga h m u) \<and> render_ga h m u \<noteq> [] \<and> \<not> py_isspace (last (render_ga h m u))"
  using render_ga_plain [of h m u] plain_field [of "render_ga h m u"] by blast

lemma render_pa_field: "annotation_field (render_pa h l t)"
  using render_pa_plain [of h l t] plain_field [of "render_pa h l t"] by blast

lemma get_physical_address_field: "annotation_field (get_physical_address raw)"
proof -
  have "annotation_field []" by (simp add: annotation_field_def)
  with get_physical_address_forms [of raw] render_pa_field show ?thesis by metis
qed

lemma extract_group_address_field:
  assumes "extract_group_address raw \<noteq> ''IGNORE''" "extract_group_address raw \<noteq> []"
  shows "annotation_field (extract_group_address raw) \<and> \<not> py_isspace (last (extract_group_address raw))"
  using extract_group_address_forms [of raw] assms render_ga_field by metis

lemma ign_comment_shape: "comment_shape (ign_comment (get_physical_address raw))"
proof -
  have "ign_comment (get_physical_address raw) = ga_comment ''IGNORE (unbestimmt)'' (get_physical_address raw)"
    by (simp add: ign_comment_def ga_comment_def)
  moreover have "annotation_field ''IGNORE (unbestimmt)''" "\<not> py_isspace (last ''IGNORE (unbestimmt)'')"
    by (simp_all add: annotation_field_def py_isspace_def)
  ultimately show ?thesis
    unfolding comment_shape_def using get_physical_address_field [of raw] by blast
qed

lemma ga_comment_shape:
  assumes "extract_group_address raw \<noteq> ''IGNORE''" "extract_group_address raw \<noteq> []"
  shows "comment_shape (ga_comment (extract_group_address raw) (get_physical_address raw))"
  unfolding comment_shape_def
  using extract_group_address_field [OF assms] assms(2) get_physical_address_field [of raw] by blast

lemma split_step_comment_shape:
  assumes "list_all comment_shape (filtered_comments st)" "list_all comment_shape (other_comments st)"
  shows "list_all comment_shape (filtered_comments (split_step fl st t)) \<and>
         list_all comment_shape (other_comments (split_step fl st t))"
proof -
  have e: "comment_shape []" by (simp add: comment_shape_def)
  show ?thesis
  proof (cases "get_rawdata t = []")
    case True
    with assms show ?thesis by (simp add: split_step_skip)
  next
    case ne: False
    show ?thesis
    proof (cases "is_ack (get_rawdata t)")
      case True
      with assms e show ?thesis by (simp add: split_step_ack)
    next
      case na: False
      show ?thesis
      proof (cases "extract_group_address (get_rawdata t) = ''IGNORE'' \<or> extract_group_address (get_rawdata t) = []")
        case True
        from split_step_ignore [OF ne na True, of fl st] assms ign_comment_shape [of "get_rawdata t"]
        show ?thesis by simp
      next
        case False
        then have g: "extract_group_address (get_rawdata t) \<noteq> ''IGNORE''" "extract_group_address (get_rawdata t) \<noteq> []"
          by simp_all
        show ?thesis
        proof (cases "list_ex (startswith (extract_group_address (get_rawdata t))) fl")
          case True
          from split_step_match [OF ne na g True, of st] assms ga_comment_shape [OF g]
          show ?thesis by simp
        next
          case False
          from split_step_nomatch [OF ne na g False, of st] assms ga_comment_shape [OF g]
          show ?thesis by simp
        qed
      qed
    qed
  qed
qed

text \<open>
  Every comment that the partition loop hands to the rendering pass is empty or has the
  shape that the two theorems on \<open>rewrite_line\<close> assume.
\<close>
lemma split_loop_comment_shape:
  "list_all comment_shape (filtered_comments (split_loop fl ts)) \<and>
   list_all comment_shape (other_comments (split_loop fl ts))"
proof (induction ts rule: rev_induct)
  case Nil
  show ?case by (simp add: split_loop_def init_state_def)
next
  case (snoc t ts)
  then show ?case unfolding split_loop_snoc by (intro split_step_comment_shape) simp_all
qed

end
